theory Spec2Isabelle
  imports Complex_Main
begin

section \<open>The mirror store\<close>

text \<open>
  The tables that \<^verbatim>\<open>lib/data/db/post.ts\<close> reads and writes. A table is the list of
  its rows in insertion order. Only the columns that \<^verbatim>\<open>post.ts\<close> names are kept.
\<close>

datatype post_status = live | deleted

record post_fields =
  post_id :: nat
  rkey :: string
  cid :: string
  title :: string
  url :: string
  createdAt :: int
  authorDid :: string

record Post = post_fields +
  status :: post_status

record PostVote =
  vote_id :: nat
  vote_postId :: nat
  vote_authorDid :: string

record Comment =
  comment_id :: nat
  comment_postId :: nat
  comment_status :: post_status

record database =
  Post_table :: "Post list"
  PostVote_table :: "PostVote list"
  Comment_table :: "Comment list"
  ConsumedOffset_table :: "int list"

text \<open>
  \<^verbatim>\<open>createdAt\<close> is a JavaScript \<^verbatim>\<open>Date\<close>: milliseconds since the Unix epoch.
\<close>

datatype error =
  DuplicateKey
  | AlreadyConsumed
  | NetworkError
  | ZodError
  | Error string

datatype js_value = Str string | Num int

datatype log_entry = console_log "js_value list" | console_error "js_value list"

subsection \<open>Statements\<close>

text \<open>
  Modelled from the spec: the schema module \<^verbatim>\<open>lib/schema\<close> (the table declarations
  with their keys, defaults and uniqueness constraints) is not among the sources. The
  spec gives the Post table the unique key (authorDid, rkey) and a create that fails with
  a duplicate-key condition, a fresh Post the status \<^verbatim>\<open>live\<close>, and the
  ConsumedOffset table at most one row per offset, \<^verbatim>\<open>recordOffset\<close> failing with
  \<^verbatim>\<open>AlreadyConsumed\<close> otherwise. The row id is the next integer key.
\<close>

definition next_post_id :: "database \<Rightarrow> nat" where
  "next_post_id d = Suc (fold max (map post_id (Post_table d)) 0)"

definition key_rows :: "string \<Rightarrow> string \<Rightarrow> database \<Rightarrow> Post list" where
  "key_rows a r d = filter (\<lambda>p. authorDid p = a \<and> rkey p = r) (Post_table d)"

definition offset_rows :: "int \<Rightarrow> database \<Rightarrow> int list" where
  "offset_rows off d = filter (\<lambda>x. x = off) (ConsumedOffset_table d)"

definition insert_Post ::
  "string \<Rightarrow> string \<Rightarrow> string \<Rightarrow> string \<Rightarrow> string \<Rightarrow> int \<Rightarrow> database \<Rightarrow> error + database" where
  "insert_Post r c a t u ca d =
     (if key_rows a r d \<noteq> [] then Inl DuplicateKey
      else Inr (d\<lparr>Post_table := Post_table d @
             [\<lparr>post_id = next_post_id d, rkey = r, cid = c, title = t, url = u,
               createdAt = ca, authorDid = a, status = live\<rparr>]\<rparr>))"

definition insert_ConsumedOffset :: "int \<Rightarrow> database \<Rightarrow> error + database" where
  "insert_ConsumedOffset off d =
     (if offset_rows off d \<noteq> [] then Inl AlreadyConsumed
      else Inr (d\<lparr>ConsumedOffset_table := ConsumedOffset_table d @ [off]\<rparr>))"

text \<open>
  \<^verbatim>\<open>tx.update(schema.Post).set({ status: "deleted" }).where(eq(schema.Post.rkey, rkey))\<close>:
  every row whose rkey matches is updated; the author is not part of the condition.
\<close>

definition update_Post_status_where_rkey :: "post_status \<Rightarrow> string \<Rightarrow> database \<Rightarrow> database" where
  "update_Post_status_where_rkey st r d =
     d\<lparr>Post_table := map (\<lambda>p. if rkey p = r then p\<lparr>status := st\<rparr> else p) (Post_table d)\<rparr>"

subsection \<open>The world outside the store\<close>

record embed_author =
  name :: string
  icon_url :: string
  author_url :: string

record embed =
  embed_title :: string
  embed_description :: string
  embed_url :: string
  embed_color :: nat
  embed_author :: "embed_author option"
  embed_fields :: "(string \<times> string) list"

record response =
  ok :: bool
  statusText :: string

record profile =
  avatar :: string
  handle :: string

record profile_json =
  json_avatar :: "string option"
  json_handle :: "string option"

text \<open>
  What a call can observe of its surroundings: the environment variable, and what the two
  network calls answer (\<open>Inl\<close> when the promise rejects).
\<close>

record environment =
  DISCORD_WEBHOOK_URL :: "string option"
  fetch_profile :: "string \<Rightarrow> error + profile_json"
  fetch_webhook :: "string \<Rightarrow> embed list \<Rightarrow> error + response"

record world =
  store :: database
  console :: "log_entry list"
  webhook_requests :: "(string \<times> embed list) list"

text \<open>
  \<^verbatim>\<open>db.transaction\<close>: the callback runs on the store; when it throws, the store is
  rolled back and the exception is thrown again, otherwise the changes are committed.
  What the callback wrote to the console stays written in both cases.
\<close>

definition transaction ::
  "(database \<Rightarrow> (error + database) \<times> log_entry list) \<Rightarrow> world \<Rightarrow> (error + unit) \<times> world" where
  "transaction body w =
     (case body (store w) of
        (Inl e, out) \<Rightarrow> (Inl e, w\<lparr>console := console w @ out\<rparr>)
      | (Inr d, out) \<Rightarrow> (Inr (), w\<lparr>store := d, console := console w @ out\<rparr>))"

subsection \<open>\<^verbatim>\<open>getBlueskyProfile\<close>\<close>

definition ProfileResponse_parse :: "profile_json \<Rightarrow> error + profile" where
  "ProfileResponse_parse j =
     (case (json_avatar j, json_handle j) of
        (Some a, Some h) \<Rightarrow> Inr \<lparr>avatar = a, handle = h\<rparr>
      | _ \<Rightarrow> Inl ZodError)"

definition getBlueskyProfile :: "environment \<Rightarrow> string \<Rightarrow> error + profile" where
  "getBlueskyProfile env did =
     (case fetch_profile env did of
        Inl e \<Rightarrow> Inl e
      | Inr j \<Rightarrow> ProfileResponse_parse j)"

subsection \<open>\<^verbatim>\<open>unauthed_createPost\<close>\<close>

text \<open>
  The record of a Create event arrives typed as \<^verbatim>\<open>atprotoPost.Post\<close>; its
  \<^verbatim>\<open>createdAt\<close> is kept as the instant that \<^verbatim>\<open>new Date(post.createdAt)\<close> yields. The
  notification runs after the transaction has returned; a rejected promise ends the call
  with that error.
\<close>

record atproto_Post =
  ap_title :: string
  ap_url :: string
  ap_createdAt :: int

record CreatePostInput =
  in_post :: atproto_Post
  in_authorDid :: string
  in_rkey :: string
  in_cid :: string
  in_offset :: int

definition createPost_tx :: "CreatePostInput \<Rightarrow> database \<Rightarrow> (error + database) \<times> log_entry list" where
  "createPost_tx inp tx =
     (case insert_Post (in_rkey inp) (in_cid inp) (in_authorDid inp)
             (ap_title (in_post inp)) (ap_url (in_post inp)) (ap_createdAt (in_post inp)) tx of
        Inl e \<Rightarrow> (Inl e, [])
      | Inr tx1 \<Rightarrow> (insert_ConsumedOffset (in_offset inp) tx1, []))"

definition new_post_embed :: "CreatePostInput \<Rightarrow> profile \<Rightarrow> embed" where
  "new_post_embed inp bskyProfile =
     \<lparr>embed_title = ''New post on Frontpage'',
      embed_description = ap_title (in_post inp),
      embed_url = ''https://frontpage.fyi/post/'' @ in_authorDid inp @ ''/'' @ in_rkey inp,
      embed_color = 10181046,
      embed_author = Some \<lparr>name = ''@'' @ handle bskyProfile,
                           icon_url = avatar bskyProfile,
                           author_url = ''https://frontpage.fyi/profile/'' @ handle bskyProfile\<rparr>,
      embed_fields = [(''Link'', ap_url (in_post inp))]\<rparr>"

definition truthy :: "string option \<Rightarrow> bool" where
  "truthy v = (case v of None \<Rightarrow> False | Some s \<Rightarrow> s \<noteq> [])"

definition notify_new_post :: "environment \<Rightarrow> CreatePostInput \<Rightarrow> world \<Rightarrow> (error + unit) \<times> world" where
  "notify_new_post env inp w =
     (if truthy (DISCORD_WEBHOOK_URL env) then
        (case getBlueskyProfile env (in_authorDid inp) of
           Inl e \<Rightarrow> (Inl e, w)
         | Inr bskyProfile \<Rightarrow>
             (let hook = the (DISCORD_WEBHOOK_URL env);
                  body = [new_post_embed inp bskyProfile];
                  w1 = w\<lparr>webhook_requests := webhook_requests w @ [(hook, body)]\<rparr>
              in case fetch_webhook env hook body of
                   Inl e \<Rightarrow> (Inl e, w1)
                 | Inr webhookResponse \<Rightarrow>
                     (if \<not> ok webhookResponse then
                        (Inr (), w1\<lparr>console := console w1 @
                           [console_error [Str ''Failed to alert of new post'',
                                           Str (statusText webhookResponse)]]\<rparr>)
                      else (Inr (), w1))))
      else (Inr (), w\<lparr>console := console w @
              [console_error [Str ''Can't alert of new post: No DISCORD_WEBHOOK_URL set'']]\<rparr>))"

definition unauthed_createPost :: "environment \<Rightarrow> CreatePostInput \<Rightarrow> world \<Rightarrow> (error + unit) \<times> world" where
  "unauthed_createPost env inp w =
     (case transaction (createPost_tx inp) w of
        (Inl e, w1) \<Rightarrow> (Inl e, w1)
      | (Inr u, w1) \<Rightarrow> notify_new_post env inp w1)"

subsection \<open>\<^verbatim>\<open>unauthed_deletePost\<close>\<close>

record DeletePostInput =
  del_rkey :: string
  del_offset :: int

definition deletePost_tx :: "DeletePostInput \<Rightarrow> database \<Rightarrow> (error + database) \<times> log_entry list" where
  "deletePost_tx inp tx =
     (let tx1 = update_Post_status_where_rkey deleted (del_rkey inp) tx;
          out = [console_log [Str ''Updating post status to deleted'', Str (del_rkey inp)],
                 console_log [Str ''Inserting consumed offset'', Num (del_offset inp)]]
      in case insert_ConsumedOffset (del_offset inp) tx1 of
           Inl e \<Rightarrow> (Inl e, out)
         | Inr tx2 \<Rightarrow> (Inr tx2, out @ [console_log [Str ''Done deleting post'']]))"

definition unauthed_deletePost :: "DeletePostInput \<Rightarrow> world \<Rightarrow> (error + unit) \<times> world" where
  "unauthed_deletePost inp w =
     (let w0 = w\<lparr>console := console w @
                 [console_log [Str ''Deleting post'', Str (del_rkey inp), Num (del_offset inp)]]\<rparr>
      in case transaction (deletePost_tx inp) w0 of
           (Inl e, w1) \<Rightarrow> (Inl e, w1)
         | (Inr u, w1) \<Rightarrow>
             (Inr (), w1\<lparr>console := console w1 @
                        [console_log [Str ''Done deleting post transaction'']]\<rparr>))"

subsection \<open>\<^verbatim>\<open>uncached_doesPostExist\<close>\<close>

definition limit :: "nat \<Rightarrow> 'a list \<Rightarrow> 'a list" where
  "limit n rows = take n rows"

definition uncached_doesPostExist :: "string \<Rightarrow> string \<Rightarrow> database \<Rightarrow> bool" where
  "uncached_doesPostExist a r d =
     (case limit 1 (map post_id (key_rows a r d)) of
        [] \<Rightarrow> False
      | row0 # rest \<Rightarrow> True)"

section \<open>The read paths\<close>

subsection \<open>\<^verbatim>\<open>getUser\<close>\<close>

record session_user =
  accessJwt :: string

record session =
  user :: "session_user option"

record current_user = session_user +
  pdsUrl :: string
  did :: string

text \<open>
  The session and the three helpers that \<^verbatim>\<open>getUser\<close> calls live outside these sources;
  they are parameters: the session that \<^verbatim>\<open>getSession\<close> yields, the \<^verbatim>\<open>sub\<close> claim that
  \<^verbatim>\<open>decodeJwt\<close> reads from a token, and the results of \<^verbatim>\<open>parseDid\<close> and
  \<^verbatim>\<open>getPdsUrl\<close> (\<open>None\<close> for \<^verbatim>\<open>null\<close> or \<^verbatim>\<open>undefined\<close>).
\<close>

record auth =
  getSession :: "session option"
  decodeJwt_sub :: "string \<Rightarrow> string option"
  parseDid :: "string \<Rightarrow> string option"
  getPdsUrl :: "string \<Rightarrow> string option"

definition getUser :: "auth \<Rightarrow> error + current_user option" where
  "getUser au =
     (case getSession au of
        None \<Rightarrow> Inr None
      | Some sess \<Rightarrow>
          (case user sess of
             None \<Rightarrow> Inl (Error ''Invalid session'')
           | Some u \<Rightarrow>
               (let sub = decodeJwt_sub au (accessJwt u) in
                if \<not> truthy sub then Inl (Error ''Invalid token. Missing sub'')
                else
                  (let d = parseDid au (the sub) in
                   if \<not> truthy d then Inl (Error ''Invalid DID'')
                   else
                     (let pds = getPdsUrl au (the d) in
                      if \<not> truthy pds
                      then Inl (Error ''No AtprotoPersonalDataServer service found'')
                      else Inr (Some \<lparr>accessJwt = accessJwt u, pdsUrl = the pds,
                                       did = the d\<rparr>))))))"

subsection \<open>The sub-queries\<close>

definition coalesce :: "'a option \<Rightarrow> 'a \<Rightarrow> 'a" where
  "coalesce v dflt = (case v of None \<Rightarrow> dflt | Some x \<Rightarrow> x)"

text \<open>
  \<^verbatim>\<open>count(col)\<close> over a group is the number of its rows (the counted ids are never NULL),
  and it is never NULL itself. Each sub-query yields one pair (postId, count) per group.
\<close>

definition votesSubQuery :: "database \<Rightarrow> (nat \<times> nat) list" where
  "votesSubQuery d =
     map (\<lambda>pid. (pid, coalesce (Some (length (filter (\<lambda>v. vote_postId v = pid) (PostVote_table d)))) 1))
         (remdups (map vote_postId (PostVote_table d)))"

definition commentCountSubQuery :: "database \<Rightarrow> (nat \<times> nat) list" where
  "commentCountSubQuery d =
     (let live_comments = filter (\<lambda>c. comment_status c = live) (Comment_table d)
      in map (\<lambda>pid. (pid, length (filter (\<lambda>c. comment_postId c = pid) live_comments)))
             (remdups (map comment_postId live_comments)))"

definition buildUserHasVotedQuery :: "auth \<Rightarrow> database \<Rightarrow> error + nat list" where
  "buildUserHasVotedQuery au d =
     (case getUser au of
        Inl e \<Rightarrow> Inl e
      | Inr u \<Rightarrow>
          Inr (map vote_postId
                 (filter (\<lambda>v. case u of Some usr \<Rightarrow> vote_authorDid v = did usr | None \<Rightarrow> False)
                         (PostVote_table d))))"

subsection \<open>Joins\<close>

definition leftJoin :: "'a list \<Rightarrow> 'b list \<Rightarrow> ('a \<Rightarrow> 'b \<Rightarrow> bool) \<Rightarrow> ('a \<times> 'b option) list" where
  "leftJoin rows tbl on =
     concat (map (\<lambda>x. case filter (on x) tbl of
                         [] \<Rightarrow> [(x, None)]
                       | ms \<Rightarrow> map (\<lambda>y. (x, Some y)) ms) rows)"

record joined_row =
  posts :: Post
  commentCount_row :: "(nat \<times> nat) option"
  vote :: "(nat \<times> nat) option"
  hasVoted :: "nat option"

definition post_joins :: "database \<Rightarrow> nat list \<Rightarrow> Post list \<Rightarrow> joined_row list" where
  "post_joins d hasVotedQuery rows =
     map (\<lambda>(((p, c), v), h). \<lparr>posts = p, commentCount_row = c, vote = v, hasVoted = h\<rparr>)
       (leftJoin
          (leftJoin
             (leftJoin rows (commentCountSubQuery d) (\<lambda>p c. fst c = post_id p))
             (votesSubQuery d) (\<lambda>(p, c) v. fst v = post_id p))
          hasVotedQuery (\<lambda>((p, c), v) h. h = post_id p))"

subsection \<open>The rank\<close>

text \<open>
  SQLite's REAL arithmetic is idealised: the numbers are the real numbers. NULL is \<open>None\<close>,
  and an arithmetic operator with a NULL operand is NULL. \<^verbatim>\<open>pow\<close> with the exponent 1.8 is
  NULL on a negative base; a division by zero is NULL.

  \<^verbatim>\<open>JULIANDAY\<close> gives a time in days (the Unix epoch is day 2440587.5), or NULL for a
  value that SQLite does not read as a date. \<^verbatim>\<open>JULIANDAY('now')\<close> is the clock of the
  query; it is a date as long as its Julian day is positive and not after the year 9999.

  Modelled from the spec: the column type of \<^verbatim>\<open>createdAt\<close> is declared in the schema
  module, which is not among the sources. The spec calls it the author-claimed timestamp
  of the post; the stored value is taken to be the ISO 8601 text of the \<^verbatim>\<open>Date\<close>, as
  \<^verbatim>\<open>toISOString\<close> writes it. SQLite reads such a text for the years 0000 to 9999, that
  is from 0000-01-01T00:00:00.000Z to 9999-12-31T23:59:59.999Z; a year outside this range
  is written with a sign and six digits, which \<^verbatim>\<open>JULIANDAY\<close> answers with NULL.
\<close>

definition date_readable :: "int \<Rightarrow> bool" where
  "date_readable ms \<longleftrightarrow> - 62167219200000 \<le> ms \<and> ms \<le> 253402300799999"

definition clock_readable :: "int \<Rightarrow> bool" where
  "clock_readable ms \<longleftrightarrow> - 210866760000000 < ms \<and> ms \<le> 253402300799999"

definition JULIANDAY :: "int \<Rightarrow> real option" where
  "JULIANDAY ms =
     (if date_readable ms then Some (2440587.5 + real_of_int ms / 86400000) else None)"

definition JULIANDAY_now :: "int \<Rightarrow> real option" where
  "JULIANDAY_now ms =
     (if clock_readable ms then Some (2440587.5 + real_of_int ms / 86400000) else None)"

definition sql_arith :: "(real \<Rightarrow> real \<Rightarrow> real) \<Rightarrow> real option \<Rightarrow> real option \<Rightarrow> real option" where
  "sql_arith f a b =
     (case a of
        None \<Rightarrow> None
      | Some x \<Rightarrow> (case b of None \<Rightarrow> None | Some y \<Rightarrow> Some (f x y)))"

definition sql_pow :: "real option \<Rightarrow> real \<Rightarrow> real option" where
  "sql_pow b y =
     (case b of
        None \<Rightarrow> None
      | Some x \<Rightarrow> if x < 0 then None else Some (x powr y))"

definition sql_div :: "real option \<Rightarrow> real option \<Rightarrow> real option" where
  "sql_div a b =
     (case a of
        None \<Rightarrow> None
      | Some x \<Rightarrow> (case b of None \<Rightarrow> None | Some y \<Rightarrow> if y = 0 then None else Some (x / y)))"

definition rank_base :: "int \<Rightarrow> int \<Rightarrow> real option" where
  "rank_base now createdAt_col =
     sql_arith (+)
       (sql_arith (*) (sql_arith (-) (JULIANDAY_now now) (JULIANDAY createdAt_col)) (Some 24))
       (Some 2)"

definition rank :: "int \<Rightarrow> nat option \<Rightarrow> int \<Rightarrow> real option" where
  "rank now voteCount_col createdAt_col =
     sql_div (Some (real (coalesce voteCount_col 1))) (sql_pow (rank_base now createdAt_col) 1.8)"

definition row_rank :: "int \<Rightarrow> joined_row \<Rightarrow> real option" where
  "row_rank now row = rank now (map_option snd (vote row)) (createdAt (posts row))"

text \<open>
  \<^verbatim>\<open>ORDER BY rank DESC\<close>: NULL sorts below every number, so it comes last. Rows of equal
  rank keep their order here; SQLite promises nothing about them.
\<close>

definition sql_le :: "real option \<Rightarrow> real option \<Rightarrow> bool" where
  "sql_le a b =
     (case a of
        None \<Rightarrow> True
      | Some x \<Rightarrow> (case b of None \<Rightarrow> False | Some y \<Rightarrow> x \<le> y))"

fun insert_desc :: "('a \<Rightarrow> real option) \<Rightarrow> 'a \<Rightarrow> 'a list \<Rightarrow> 'a list" where
  "insert_desc k x [] = [x]"
| "insert_desc k x (y # ys) =
     (if sql_le (k y) (k x) then x # y # ys else y # insert_desc k x ys)"

definition orderBy_desc :: "('a \<Rightarrow> real option) \<Rightarrow> 'a list \<Rightarrow> 'a list" where
  "orderBy_desc k rows = foldr (insert_desc k) rows []"

subsection \<open>\<^verbatim>\<open>getFrontpagePosts\<close>, \<^verbatim>\<open>getUserPosts\<close>, \<^verbatim>\<open>getPost\<close>\<close>

text \<open>
  The three functions are wrapped in React's \<^verbatim>\<open>cache\<close>, which memoises within one
  request; the definitions describe the first call of a request. \<open>now\<close> is the time at
  which the query runs. A WHERE clause that reads only columns of the Post table selects
  the same joined rows whether it is applied to the Post rows before the left joins or to
  the joined rows after them (lemma \<open>post_joins_filter\<close>); \<^verbatim>\<open>getPost\<close> is written in the
  first way, as its query builder is, the two listings in the second.
\<close>

record PostListing = post_fields +
  voteCount :: nat
  commentCount :: nat
  userHasVoted :: bool

record PostDetail = Post +
  post_commentCount :: nat
  post_voteCount :: nat
  post_userHasVoted :: bool

text \<open>
  \<^verbatim>\<open>Boolean(x)\<close>: in the two listings \<open>x\<close> is the joined \<^verbatim>\<open>postId\<close> column, a number
  or \<^verbatim>\<open>null\<close>; in \<^verbatim>\<open>getPost\<close> it is the joined row itself, an object or \<^verbatim>\<open>null\<close>.
\<close>

definition Boolean :: "nat option \<Rightarrow> bool" where
  "Boolean v = (case v of None \<Rightarrow> False | Some n \<Rightarrow> n \<noteq> 0)"

definition Boolean_object :: "'a option \<Rightarrow> bool" where
  "Boolean_object v = (v \<noteq> None)"

definition listing :: "joined_row \<Rightarrow> PostListing" where
  "listing row =
     \<lparr>post_id = post_id (posts row), rkey = rkey (posts row), cid = cid (posts row),
      title = title (posts row), url = url (posts row), createdAt = createdAt (posts row),
      authorDid = authorDid (posts row),
      voteCount = coalesce (map_option snd (vote row)) 1,
      commentCount = coalesce (map_option snd (commentCount_row row)) 0,
      userHasVoted = Boolean (hasVoted row)\<rparr>"

definition frontpage_rows :: "int \<Rightarrow> database \<Rightarrow> nat list \<Rightarrow> joined_row list" where
  "frontpage_rows now d hasVotedQuery =
     orderBy_desc (row_rank now)
       (filter (\<lambda>row. status (posts row) = live) (post_joins d hasVotedQuery (Post_table d)))"

definition getFrontpagePosts :: "auth \<Rightarrow> int \<Rightarrow> database \<Rightarrow> error + PostListing list" where
  "getFrontpagePosts au now d =
     (case buildUserHasVotedQuery au d of
        Inl e \<Rightarrow> Inl e
      | Inr hasVotedQuery \<Rightarrow> Inr (map listing (frontpage_rows now d hasVotedQuery)))"

definition getUserPosts :: "auth \<Rightarrow> string \<Rightarrow> database \<Rightarrow> error + PostListing list" where
  "getUserPosts au userDid d =
     (case buildUserHasVotedQuery au d of
        Inl e \<Rightarrow> Inl e
      | Inr hasVotedQuery \<Rightarrow>
          Inr (map listing
                 (filter (\<lambda>row. authorDid (posts row) = userDid \<and> status (posts row) = live)
                         (post_joins d hasVotedQuery (Post_table d)))))"

definition detail :: "joined_row \<Rightarrow> PostDetail" where
  "detail row =
     \<lparr>post_id = post_id (posts row), rkey = rkey (posts row), cid = cid (posts row),
      title = title (posts row), url = url (posts row), createdAt = createdAt (posts row),
      authorDid = authorDid (posts row), status = status (posts row),
      post_commentCount = coalesce (map_option snd (commentCount_row row)) 0,
      post_voteCount = coalesce (map_option snd (vote row)) 1,
      post_userHasVoted = Boolean_object (hasVoted row)\<rparr>"

definition getPost :: "auth \<Rightarrow> string \<Rightarrow> string \<Rightarrow> database \<Rightarrow> error + PostDetail option" where
  "getPost au a r d =
     (case buildUserHasVotedQuery au d of
        Inl e \<Rightarrow> Inl e
      | Inr hasVotedQuery \<Rightarrow>
          (case limit 1 (post_joins d hasVotedQuery (key_rows a r d)) of
             [] \<Rightarrow> Inr None
           | row # rest \<Rightarrow> Inr (Some (detail row))))"

subsection \<open>The score as the specification writes it\<close>

definition hoursSince :: "int \<Rightarrow> int \<Rightarrow> real" where
  "hoursSince created now = real_of_int (now - created) / 3600000"

definition score :: "nat \<Rightarrow> int \<Rightarrow> int \<Rightarrow> real" where
  "score votes created now = real votes / (hoursSince created now + 2) powr 1.8"

subsection \<open>The constraints of the schema as predicates on a store\<close>

definition unique_posts :: "database \<Rightarrow> bool" where
  "unique_posts d = distinct (map (\<lambda>p. (authorDid p, rkey p)) (Post_table d))"

definition unique_offsets :: "database \<Rightarrow> bool" where
  "unique_offsets d = distinct (ConsumedOffset_table d)"

section \<open>Notions used in the statements\<close>

text \<open>
  The row that a Create event adds, and the store with both of its inserts applied.
\<close>

definition created_row :: "CreatePostInput \<Rightarrow> database \<Rightarrow> Post" where
  "created_row inp d =
     \<lparr>post_id = next_post_id d, rkey = in_rkey inp, cid = in_cid inp,
      title = ap_title (in_post inp), url = ap_url (in_post inp),
      createdAt = ap_createdAt (in_post inp), authorDid = in_authorDid inp, status = live\<rparr>"

definition committed_create :: "CreatePostInput \<Rightarrow> database \<Rightarrow> database" where
  "committed_create inp d =
     d\<lparr>Post_table := Post_table d @ [created_row inp d],
       ConsumedOffset_table := ConsumedOffset_table d @ [in_offset inp]\<rparr>"

definition is_new :: "CreatePostInput \<Rightarrow> database \<Rightarrow> bool" where
  "is_new inp d \<longleftrightarrow>
     key_rows (in_authorDid inp) (in_rkey inp) d = [] \<and> in_offset inp \<notin> set (ConsumedOffset_table d)"

text \<open>
  The rank of a listed row, computed again from the fields that the listing keeps.
\<close>

definition listing_rank :: "int \<Rightarrow> PostListing \<Rightarrow> real option" where
  "listing_rank now x = rank now (Some (voteCount x)) (createdAt x)"

section \<open>Concrete stores and events\<close>

definition empty_database :: database where
  "empty_database =
     \<lparr>Post_table = [], PostVote_table = [], Comment_table = [], ConsumedOffset_table = []\<rparr>"

definition empty_world :: world where
  "empty_world = \<lparr>store = empty_database, console = [], webhook_requests = []\<rparr>"

definition silent_env :: environment where
  "silent_env =
     \<lparr>DISCORD_WEBHOOK_URL = None, fetch_profile = (\<lambda>d. Inl NetworkError),
      fetch_webhook = (\<lambda>u b. Inl NetworkError)\<rparr>"

definition create_3k2x :: CreatePostInput where
  "create_3k2x =
     \<lparr>in_post = \<lparr>ap_title = ''Hello'', ap_url = ''https://example.com/'',
                 ap_createdAt = 1700000000000\<rparr>,
      in_authorDid = ''did:plc:abc123'', in_rkey = ''3k2x'', in_cid = ''bafy1'', in_offset = 7\<rparr>"

definition deleted_3k2x :: Post where
  "deleted_3k2x =
     \<lparr>post_id = 1, rkey = ''3k2x'', cid = ''bafy1'', title = ''Hello'',
      url = ''https://example.com/'', createdAt = 1700000000000,
      authorDid = ''did:plc:abc123'', status = deleted\<rparr>"

definition offset_7_consumed :: world where
  "offset_7_consumed = empty_world\<lparr>store := empty_database\<lparr>ConsumedOffset_table := [7]\<rparr>\<rparr>"

definition two_authors_3k2x :: world where
  "two_authors_3k2x =
     empty_world\<lparr>store := empty_database
       \<lparr>Post_table :=
          [\<lparr>post_id = 1, rkey = ''3k2x'', cid = ''bafy1'', title = ''Hello'',
            url = ''https://example.com/'', createdAt = 1700000000000,
            authorDid = ''did:plc:abc123'', status = live\<rparr>,
           \<lparr>post_id = 2, rkey = ''3k2x'', cid = ''bafy2'', title = ''Other'',
            url = ''https://example.org/'', createdAt = 1700000000001,
            authorDid = ''did:plc:xyz789'', status = live\<rparr>],
        ConsumedOffset_table := [7, 8]\<rparr>\<rparr>"

definition webhook_down_env :: environment where
  "webhook_down_env =
     \<lparr>DISCORD_WEBHOOK_URL = Some ''https://discord.example/hook'',
      fetch_profile = (\<lambda>d. Inr \<lparr>json_avatar = Some ''https://cdn.example/a.png'',
                                 json_handle = Some ''alice.example''\<rparr>),
      fetch_webhook = (\<lambda>u b. Inl NetworkError)\<rparr>"

definition no_avatar_env :: environment where
  "no_avatar_env =
     \<lparr>DISCORD_WEBHOOK_URL = Some ''https://discord.example/hook'',
      fetch_profile = (\<lambda>d. Inr \<lparr>json_avatar = None, json_handle = Some ''alice.example''\<rparr>),
      fetch_webhook = (\<lambda>u b. Inr \<lparr>ok = True, statusText = ''OK''\<rparr>)\<rparr>"

definition anonymous :: auth where
  "anonymous = \<lparr>getSession = None, decodeJwt_sub = (\<lambda>t. None), parseDid = (\<lambda>s. None),
     getPdsUrl = (\<lambda>d. None)\<rparr>"

definition live_3k2x :: Post where
  "live_3k2x = deleted_3k2x\<lparr>status := live\<rparr>"

definition delete_3k2x :: DeletePostInput where
  "delete_3k2x = \<lparr>del_rkey = ''3k2x'', del_offset = 8\<rparr>"

definition one_post :: database where
  "one_post = empty_database\<lparr>Post_table := [live_3k2x], ConsumedOffset_table := [7]\<rparr>"

definition newer_3k2y :: Post where
  "newer_3k2y =
     \<lparr>post_id = 2, rkey = ''3k2y'', cid = ''bafy2'', title = ''Later'',
      url = ''https://example.org/'', createdAt = 1700001800000,
      authorDid = ''did:plc:abc123'', status = live\<rparr>"

definition two_posts :: database where
  "two_posts = empty_database\<lparr>Post_table := [live_3k2x, newer_3k2y], ConsumedOffset_table := [7, 8]\<rparr>"

definition same_age_3k2z :: Post where
  "same_age_3k2z =
     \<lparr>post_id = 2, rkey = ''3k2z'', cid = ''bafy3'', title = ''Voted'',
      url = ''https://example.net/'', createdAt = 1700000000000,
      authorDid = ''did:plc:xyz789'', status = live\<rparr>"

definition voted_posts :: database where
  "voted_posts =
     empty_database
       \<lparr>Post_table := [live_3k2x, same_age_3k2z],
        PostVote_table :=
          [\<lparr>vote_id = 1, vote_postId = 2, vote_authorDid = ''did:plc:abc123''\<rparr>,
           \<lparr>vote_id = 2, vote_postId = 2, vote_authorDid = ''did:plc:def456''\<rparr>],
        ConsumedOffset_table := [7, 8, 9, 10]\<rparr>"

text \<open>
  Two posts whose authors claim the dates -000200-01-01T00:00:00.000Z and
  -000100-01-01T00:00:00.000Z.
\<close>

definition post_200bc :: Post where
  "post_200bc =
     \<lparr>post_id = 1, rkey = ''3k2a'', cid = ''bafy4'', title = ''Old'',
      url = ''https://example.com/a'', createdAt = - 68478566400000,
      authorDid = ''did:plc:abc123'', status = live\<rparr>"

definition post_100bc :: Post where
  "post_100bc =
     \<lparr>post_id = 2, rkey = ''3k2b'', cid = ''bafy5'', title = ''Less old'',
      url = ''https://example.com/b'', createdAt = - 65322892800000,
      authorDid = ''did:plc:abc123'', status = live\<rparr>"

definition bc_posts :: database where
  "bc_posts = empty_database\<lparr>Post_table := [post_200bc, post_100bc], ConsumedOffset_table := [7, 8]\<rparr>"

section \<open>Properties\<close>

subsection \<open>Rows by key and by offset\<close>

lemma key_rows_empty_iff:
  "key_rows a r d = [] \<longleftrightarrow> (\<forall>p\<in>set (Post_table d). \<not> (authorDid p = a \<and> rkey p = r))"
  by (auto simp: key_rows_def filter_empty_conv)

lemma offset_rows_empty_iff: "offset_rows off d = [] \<longleftrightarrow> off \<notin> set (ConsumedOffset_table d)"
  by (auto simp: offset_rows_def filter_empty_conv)

lemma doesPostExist_key_rows: "uncached_doesPostExist a r d \<longleftrightarrow> key_rows a r d \<noteq> []"
  by (cases "key_rows a r d") (simp_all add: uncached_doesPostExist_def limit_def)

lemma key_rows_empty_keys:
  "key_rows a r d = [] \<longleftrightarrow> (a, r) \<notin> set (map (\<lambda>p. (authorDid p, rkey p)) (Post_table d))"
  by (auto simp: key_rows_empty_iff)

lemma update_status_keys:
  "map (\<lambda>p. (authorDid p, rkey p)) (Post_table (update_Post_status_where_rkey st r' d))
   = map (\<lambda>p. (authorDid p, rkey p)) (Post_table d)"
  by (simp add: update_Post_status_where_rkey_def)

lemma key_rows_update_empty:
  "key_rows a r (update_Post_status_where_rkey st r' d) = [] \<longleftrightarrow> key_rows a r d = []"
  by (simp only: key_rows_empty_keys update_status_keys)

lemma insert_offset_fresh:
  "off \<notin> set (ConsumedOffset_table d) \<Longrightarrow>
   insert_ConsumedOffset off d = Inr (d\<lparr>ConsumedOffset_table := ConsumedOffset_table d @ [off]\<rparr>)"
  by (simp add: insert_ConsumedOffset_def offset_rows_empty_iff)

lemma insert_offset_consumed:
  "off \<in> set (ConsumedOffset_table d) \<Longrightarrow> insert_ConsumedOffset off d = Inl AlreadyConsumed"
  by (simp add: insert_ConsumedOffset_def offset_rows_empty_iff)

lemma update_unknown_rkey:
  assumes "\<forall>p\<in>set (Post_table d). rkey p \<noteq> r"
  shows "update_Post_status_where_rkey st r d = d"
proof -
  have "map (\<lambda>p. if rkey p = r then p\<lparr>status := st\<rparr> else p) (Post_table d)
        = map (\<lambda>p. p) (Post_table d)"
    using assms by (intro map_cong) auto
  then show ?thesis by (simp add: update_Post_status_where_rkey_def)
qed

lemma update_offsets [simp]:
  "ConsumedOffset_table (update_Post_status_where_rkey st r d) = ConsumedOffset_table d"
  by (simp add: update_Post_status_where_rkey_def)

subsection \<open>The existence check\<close>

text \<open>
  Claim C10. \<^verbatim>\<open>uncached_doesPostExist(authorDid, rkey)\<close> is true exactly when the Post
  table holds a row with that (authorDid, rkey) pair, whatever its status: it is true for
  every soft-deleted row, and soft-deleting rows never changes its answer.
\<close>

theorem doesPostExist_ignores_status:
  "(uncached_doesPostExist a r d \<longleftrightarrow> (\<exists>p\<in>set (Post_table d). authorDid p = a \<and> rkey p = r))
   \<and> (\<forall>p\<in>set (Post_table d). status p = deleted \<longrightarrow>
         uncached_doesPostExist (authorDid p) (rkey p) d)
   \<and> (uncached_doesPostExist a r (update_Post_status_where_rkey deleted r' d)
        = uncached_doesPostExist a r d)"
proof (intro conjI)
  show "uncached_doesPostExist a r d \<longleftrightarrow> (\<exists>p\<in>set (Post_table d). authorDid p = a \<and> rkey p = r)"
    by (auto simp: doesPostExist_key_rows key_rows_empty_iff)
  show "\<forall>p\<in>set (Post_table d). status p = deleted \<longrightarrow>
          uncached_doesPostExist (authorDid p) (rkey p) d"
    by (auto simp: doesPostExist_key_rows key_rows_empty_iff)
  show "uncached_doesPostExist a r (update_Post_status_where_rkey deleted r' d)
        = uncached_doesPostExist a r d"
    by (simp only: doesPostExist_key_rows key_rows_update_empty)
qed

theorem doesPostExist_ignores_status_witness:
  "uncached_doesPostExist ''did:plc:abc123'' ''3k2x'' (empty_database\<lparr>Post_table := [deleted_3k2x]\<rparr>)
   \<and> \<not> uncached_doesPostExist ''did:plc:other'' ''3k2x''
         (empty_database\<lparr>Post_table := [deleted_3k2x]\<rparr>)"
  using doesPostExist_ignores_status
          [of "''did:plc:abc123''" "''3k2x''" "empty_database\<lparr>Post_table := [deleted_3k2x]\<rparr>"]
        doesPostExist_ignores_status
          [of "''did:plc:other''" "''3k2x''" "empty_database\<lparr>Post_table := [deleted_3k2x]\<rparr>"]
  by (simp add: deleted_3k2x_def empty_database_def)

subsection \<open>What a delete does to the store\<close>

lemma deletePost_store:
  "store (snd (unauthed_deletePost inp w)) =
     (if del_offset inp \<in> set (ConsumedOffset_table (store w)) then store w
      else (update_Post_status_where_rkey deleted (del_rkey inp) (store w))
             \<lparr>ConsumedOffset_table := ConsumedOffset_table (store w) @ [del_offset inp]\<rparr>)"
  by (simp add: unauthed_deletePost_def transaction_def deletePost_tx_def Let_def
      insert_offset_fresh insert_offset_consumed)

lemma deletePost_result:
  "fst (unauthed_deletePost inp w) =
     (if del_offset inp \<in> set (ConsumedOffset_table (store w)) then Inl AlreadyConsumed
      else Inr ())"
  by (simp add: unauthed_deletePost_def transaction_def deletePost_tx_def Let_def
      insert_offset_fresh insert_offset_consumed)

text \<open>
  Claim C8. A Delete event whose rkey matches no Post row leaves the Post table as it
  was (no row is created, none is changed), and afterwards its offset is in the
  ConsumedOffset table; when the offset was not consumed before, the call succeeds and
  has inserted exactly that one ConsumedOffset row.
\<close>

theorem deletePost_unknown_rkey:
  assumes "\<forall>p\<in>set (Post_table (store w)). rkey p \<noteq> del_rkey inp"
  shows "Post_table (store (snd (unauthed_deletePost inp w))) = Post_table (store w)
    \<and> del_offset inp \<in> set (ConsumedOffset_table (store (snd (unauthed_deletePost inp w))))
    \<and> (del_offset inp \<notin> set (ConsumedOffset_table (store w)) \<longrightarrow>
         fst (unauthed_deletePost inp w) = Inr ()
         \<and> ConsumedOffset_table (store (snd (unauthed_deletePost inp w)))
             = ConsumedOffset_table (store w) @ [del_offset inp])"
  using assms by (simp add: deletePost_store deletePost_result update_unknown_rkey)

theorem deletePost_unknown_rkey_witness:
  "Post_table (store (snd (unauthed_deletePost \<lparr>del_rkey = ''3k2x'', del_offset = 8\<rparr> empty_world))) = []
   \<and> ConsumedOffset_table
        (store (snd (unauthed_deletePost \<lparr>del_rkey = ''3k2x'', del_offset = 8\<rparr> empty_world))) = [8]
   \<and> fst (unauthed_deletePost \<lparr>del_rkey = ''3k2x'', del_offset = 8\<rparr> empty_world) = Inr ()"
  using deletePost_unknown_rkey [of empty_world "\<lparr>del_rkey = ''3k2x'', del_offset = 8\<rparr>"]
  by (simp add: empty_world_def empty_database_def)

subsection \<open>A delete selects by rkey alone\<close>

lemma deletePost_other_rkeys:
  "filter (\<lambda>p. rkey p \<noteq> del_rkey inp) (Post_table (store (snd (unauthed_deletePost inp w))))
   = filter (\<lambda>p. rkey p \<noteq> del_rkey inp) (Post_table (store w))"
proof -
  have "filter (\<lambda>p. rkey p \<noteq> r) (map (\<lambda>p. if rkey p = r then p\<lparr>status := deleted\<rparr> else p) xs)
      = filter (\<lambda>p. rkey p \<noteq> r) xs" for r and xs :: "Post list"
  proof (induction xs)
    case Nil
    show ?case by simp
  next
    case (Cons x xs)
    show ?case
    proof (cases "rkey x = r")
      case True
      then show ?thesis using Cons.IH by simp
    next
      case False
      then show ?thesis using Cons.IH by simp
    qed
  qed
  then show ?thesis
    by (simp add: deletePost_store update_Post_status_where_rkey_def)
qed

text \<open>
  Claim C3. A delete is to change only the post identified by (authorDid, rkey), and to
  leave another author's post with the same rkey as it was. \<^verbatim>\<open>unauthed_deletePost\<close>
  selects by rkey alone: in this store two authors each have a live post with the rkey
  3k2x (the (authorDid, rkey) pairs are distinct), and one Delete event for that rkey
  turns both posts to \<^verbatim>\<open>deleted\<close>. Posts with another rkey are never touched (lemma
  \<open>deletePost_other_rkeys\<close>).
\<close>

theorem deletePost_hits_other_author:
  "unique_posts (store two_authors_3k2x)
   \<and> map (\<lambda>p. (authorDid p, rkey p, status p)) (Post_table (store two_authors_3k2x))
       = [(''did:plc:abc123'', ''3k2x'', live), (''did:plc:xyz789'', ''3k2x'', live)]
   \<and> fst (unauthed_deletePost \<lparr>del_rkey = ''3k2x'', del_offset = 9\<rparr> two_authors_3k2x) = Inr ()
   \<and> map (\<lambda>p. (authorDid p, rkey p, status p))
        (Post_table (store (snd (unauthed_deletePost \<lparr>del_rkey = ''3k2x'', del_offset = 9\<rparr>
           two_authors_3k2x))))
       = [(''did:plc:abc123'', ''3k2x'', deleted), (''did:plc:xyz789'', ''3k2x'', deleted)]"
  by (simp add: deletePost_store deletePost_result)
     (simp add: two_authors_3k2x_def empty_world_def empty_database_def unique_posts_def
        update_Post_status_where_rkey_def)

subsection \<open>What a create does to the store\<close>

lemma createPost_tx_new:
  "is_new inp d \<Longrightarrow> createPost_tx inp d = (Inr (committed_create inp d), [])"
  by (simp add: is_new_def createPost_tx_def insert_Post_def insert_ConsumedOffset_def
      offset_rows_empty_iff committed_create_def created_row_def)

lemma createPost_tx_old:
  "\<not> is_new inp d \<Longrightarrow> \<exists>e. createPost_tx inp d = (Inl e, [])"
  by (auto simp: is_new_def createPost_tx_def insert_Post_def insert_ConsumedOffset_def
      offset_rows_empty_iff)

lemma createPost_tx_duplicate:
  "key_rows (in_authorDid inp) (in_rkey inp) d \<noteq> [] \<Longrightarrow> createPost_tx inp d = (Inl DuplicateKey, [])"
  by (simp add: createPost_tx_def insert_Post_def)

lemma notify_store [simp]: "store (snd (notify_new_post env inp w)) = store w"
  by (simp add: notify_new_post_def Let_def split: sum.splits)

lemma createPost_new:
  "is_new inp (store w) \<Longrightarrow>
   unauthed_createPost env inp w = notify_new_post env inp (w\<lparr>store := committed_create inp (store w)\<rparr>)"
  by (simp add: unauthed_createPost_def transaction_def createPost_tx_new)

lemma createPost_old:
  assumes "\<not> is_new inp (store w)"
  shows "\<exists>e. unauthed_createPost env inp w = (Inl e, w)"
proof -
  from createPost_tx_old [OF assms] obtain e where "createPost_tx inp (store w) = (Inl e, [])" ..
  then have "unauthed_createPost env inp w = (Inl e, w)"
    by (simp add: unauthed_createPost_def transaction_def)
  then show ?thesis ..
qed

lemma createPost_duplicate:
  "key_rows (in_authorDid inp) (in_rkey inp) (store w) \<noteq> [] \<Longrightarrow>
   unauthed_createPost env inp w = (Inl DuplicateKey, w)"
  by (simp add: unauthed_createPost_def transaction_def createPost_tx_duplicate)

lemma createPost_store:
  "store (snd (unauthed_createPost env inp w)) =
     (if is_new inp (store w) then committed_create inp (store w) else store w)"
proof (cases "is_new inp (store w)")
  case True
  then show ?thesis by (simp add: createPost_new)
next
  case False
  from createPost_old [OF False, of env] show ?thesis using False by auto
qed

lemma key_rows_committed:
  "key_rows (in_authorDid inp) (in_rkey inp) (committed_create inp d)
   = key_rows (in_authorDid inp) (in_rkey inp) d @ [created_row inp d]"
  by (simp add: key_rows_def committed_create_def created_row_def)

lemma offset_rows_committed:
  "offset_rows (in_offset inp) (committed_create inp d)
   = offset_rows (in_offset inp) d @ [in_offset inp]"
  by (simp add: offset_rows_def committed_create_def)

subsection \<open>The constraints of the schema are kept\<close>

lemma createPost_keeps_constraints:
  assumes "unique_posts (store w)" and "unique_offsets (store w)"
  shows "unique_posts (store (snd (unauthed_createPost env inp w)))
    \<and> unique_offsets (store (snd (unauthed_createPost env inp w)))"
proof (cases "is_new inp (store w)")
  case True
  then have "(in_authorDid inp, in_rkey inp)
      \<notin> set (map (\<lambda>p. (authorDid p, rkey p)) (Post_table (store w)))"
    using key_rows_empty_keys [of "in_authorDid inp" "in_rkey inp" "store w"]
    by (simp add: is_new_def)
  with assms True show ?thesis
    by (simp add: createPost_store committed_create_def created_row_def unique_posts_def
        unique_offsets_def is_new_def)
next
  case False
  with assms show ?thesis by (simp add: createPost_store)
qed

lemma deletePost_keeps_constraints:
  assumes "unique_posts (store w)" and "unique_offsets (store w)"
  shows "unique_posts (store (snd (unauthed_deletePost inp w)))
    \<and> unique_offsets (store (snd (unauthed_deletePost inp w)))"
proof -
  have "unique_posts (update_Post_status_where_rkey st r d) = unique_posts d" for st r d
    by (simp only: unique_posts_def update_status_keys)
  with assms show ?thesis
    by (simp add: deletePost_store unique_posts_def unique_offsets_def
        update_Post_status_where_rkey_def comp_def if_distrib cong: if_cong)
qed

lemma distinct_key_once:
  assumes "distinct (map f xs)"
  shows "length (filter (\<lambda>x. f x = k) xs) \<le> 1"
  using assms
proof (induction xs)
  case Nil
  show ?case by simp
next
  case (Cons x xs)
  show ?case
  proof (cases "f x = k")
    case True
    with Cons.prems have "k \<notin> f ` set xs" by auto
    then have "filter (\<lambda>x. f x = k) xs = []" by (auto simp: filter_empty_conv)
    with True show ?thesis by simp
  next
    case False
    with Cons show ?thesis by simp
  qed
qed

lemma unique_posts_once: "unique_posts d \<Longrightarrow> length (key_rows a r d) \<le> 1"
proof -
  assume "unique_posts d"
  then have "length (filter (\<lambda>p. (authorDid p, rkey p) = (a, r)) (Post_table d)) \<le> 1"
    unfolding unique_posts_def by (rule distinct_key_once)
  then show ?thesis by (simp add: key_rows_def)
qed

lemma unique_offsets_once: "unique_offsets d \<Longrightarrow> length (offset_rows off d) \<le> 1"
proof -
  assume "unique_offsets d"
  then have "distinct (map (\<lambda>x. x) (ConsumedOffset_table d))" by (simp add: unique_offsets_def)
  then have "length (filter (\<lambda>x. x = off) (ConsumedOffset_table d)) \<le> 1"
    by (rule distinct_key_once)
  then show ?thesis by (simp add: offset_rows_def)
qed

text \<open>
  Claim C2. The Post insert and the ConsumedOffset insert of \<^verbatim>\<open>unauthed_createPost\<close>
  are one unit of work: after the call the store either is the store before it or holds
  both new rows; the Post table has changed exactly when the ConsumedOffset table has;
  and when the Post insert succeeds and the ConsumedOffset insert then fails, the call
  fails with that error and the world is as it was, so the inserted Post is gone.
\<close>

theorem createPost_atomic:
  "(store (snd (unauthed_createPost env inp w)) = store w
      \<or> store (snd (unauthed_createPost env inp w)) = committed_create inp (store w))
   \<and> (Post_table (store (snd (unauthed_createPost env inp w))) \<noteq> Post_table (store w)
        \<longleftrightarrow> ConsumedOffset_table (store (snd (unauthed_createPost env inp w)))
              \<noteq> ConsumedOffset_table (store w))
   \<and> (\<forall>tx1 e. insert_Post (in_rkey inp) (in_cid inp) (in_authorDid inp) (ap_title (in_post inp))
                 (ap_url (in_post inp)) (ap_createdAt (in_post inp)) (store w) = Inr tx1
               \<and> insert_ConsumedOffset (in_offset inp) tx1 = Inl e
        \<longrightarrow> unauthed_createPost env inp w = (Inl e, w))"
proof (intro conjI allI impI)
  show "store (snd (unauthed_createPost env inp w)) = store w
      \<or> store (snd (unauthed_createPost env inp w)) = committed_create inp (store w)"
    by (simp add: createPost_store)
  show "Post_table (store (snd (unauthed_createPost env inp w))) \<noteq> Post_table (store w)
        \<longleftrightarrow> ConsumedOffset_table (store (snd (unauthed_createPost env inp w)))
              \<noteq> ConsumedOffset_table (store w)"
    by (simp add: createPost_store committed_create_def)
next
  fix tx1 e
  assume "insert_Post (in_rkey inp) (in_cid inp) (in_authorDid inp) (ap_title (in_post inp))
                 (ap_url (in_post inp)) (ap_createdAt (in_post inp)) (store w) = Inr tx1
               \<and> insert_ConsumedOffset (in_offset inp) tx1 = Inl e"
  then show "unauthed_createPost env inp w = (Inl e, w)"
    by (simp add: unauthed_createPost_def transaction_def createPost_tx_def)
qed

theorem createPost_atomic_witness:
  "unauthed_createPost silent_env create_3k2x offset_7_consumed = (Inl AlreadyConsumed, offset_7_consumed)
   \<and> Post_table (store (snd (unauthed_createPost silent_env create_3k2x offset_7_consumed))) = []"
  using createPost_atomic [of silent_env create_3k2x offset_7_consumed]
  by (simp add: offset_7_consumed_def empty_world_def empty_database_def create_3k2x_def
      insert_Post_def insert_ConsumedOffset_def key_rows_def offset_rows_def)

text \<open>
  Claim C1. Applying a Create event a second time never changes anything: the call
  fails and the world (store, console, webhook requests) is exactly as the first
  application left it. When the event was new to the store (no row with its key, its
  offset not yet consumed), the second application fails on the duplicate key, and the
  store then holds exactly one Post row with the event's (authorDid, rkey) and exactly
  one ConsumedOffset row with its offset. From a store that meets the two uniqueness
  constraints there is never more than one of either.
\<close>

theorem createPost_replay:
  "snd (unauthed_createPost env' inp (snd (unauthed_createPost env inp w)))
     = snd (unauthed_createPost env inp w)
   \<and> isl (fst (unauthed_createPost env' inp (snd (unauthed_createPost env inp w))))
   \<and> (is_new inp (store w) \<longrightarrow>
        fst (unauthed_createPost env' inp (snd (unauthed_createPost env inp w))) = Inl DuplicateKey
        \<and> length (key_rows (in_authorDid inp) (in_rkey inp)
             (store (snd (unauthed_createPost env' inp (snd (unauthed_createPost env inp w)))))) = 1
        \<and> length (offset_rows (in_offset inp)
             (store (snd (unauthed_createPost env' inp (snd (unauthed_createPost env inp w)))))) = 1)
   \<and> (unique_posts (store w) \<and> unique_offsets (store w) \<longrightarrow>
        length (key_rows (in_authorDid inp) (in_rkey inp)
             (store (snd (unauthed_createPost env' inp (snd (unauthed_createPost env inp w)))))) \<le> 1
        \<and> length (offset_rows (in_offset inp)
             (store (snd (unauthed_createPost env' inp (snd (unauthed_createPost env inp w)))))) \<le> 1)"
proof -
  define w1 where "w1 = snd (unauthed_createPost env inp w)"
  define r2 where "r2 = unauthed_createPost env' inp w1"
  have main: "snd r2 = w1 \<and> isl (fst r2)
      \<and> (is_new inp (store w) \<longrightarrow> fst r2 = Inl DuplicateKey
            \<and> length (key_rows (in_authorDid inp) (in_rkey inp) (store (snd r2))) = 1
            \<and> length (offset_rows (in_offset inp) (store (snd r2))) = 1)"
  proof (cases "is_new inp (store w)")
    case True
    have s1: "store w1 = committed_create inp (store w)"
      using True by (simp add: w1_def createPost_store)
    have k1: "key_rows (in_authorDid inp) (in_rkey inp) (store w1) = [created_row inp (store w)]"
      using True by (simp add: s1 key_rows_committed is_new_def)
    have o1: "offset_rows (in_offset inp) (store w1) = [in_offset inp]"
      using True by (simp add: s1 offset_rows_committed is_new_def offset_rows_empty_iff)
    have "unauthed_createPost env' inp w1 = (Inl DuplicateKey, w1)"
      by (rule createPost_duplicate) (simp add: k1)
    then show ?thesis using k1 o1 by (simp add: r2_def)
  next
    case False
    from createPost_old [OF False, of env] obtain e
      where e: "unauthed_createPost env inp w = (Inl e, w)" ..
    from createPost_old [OF False, of env'] obtain e'
      where e': "unauthed_createPost env' inp w = (Inl e', w)" ..
    show ?thesis using False by (simp add: r2_def w1_def e e')
  qed
  have once: "length (key_rows (in_authorDid inp) (in_rkey inp) (store (snd r2))) \<le> 1
      \<and> length (offset_rows (in_offset inp) (store (snd r2))) \<le> 1"
    if "unique_posts (store w) \<and> unique_offsets (store w)"
  proof -
    from that have "unique_posts (store w1) \<and> unique_offsets (store w1)"
      unfolding w1_def by (intro createPost_keeps_constraints) simp_all
    then have "unique_posts (store (snd r2)) \<and> unique_offsets (store (snd r2))"
      unfolding r2_def by (intro createPost_keeps_constraints) simp_all
    then show ?thesis using unique_posts_once unique_offsets_once by blast
  qed
  from main once show ?thesis unfolding r2_def w1_def by blast
qed

theorem createPost_replay_witness:
  "is_new create_3k2x (store empty_world)
   \<and> unauthed_createPost silent_env create_3k2x (snd (unauthed_createPost silent_env create_3k2x empty_world))
       = (Inl DuplicateKey, snd (unauthed_createPost silent_env create_3k2x empty_world))
   \<and> map rkey (Post_table (store (snd (unauthed_createPost silent_env create_3k2x
        (snd (unauthed_createPost silent_env create_3k2x empty_world)))))) = [''3k2x'']
   \<and> ConsumedOffset_table (store (snd (unauthed_createPost silent_env create_3k2x
        (snd (unauthed_createPost silent_env create_3k2x empty_world))))) = [7]"
proof -
  define w1 where "w1 = snd (unauthed_createPost silent_env create_3k2x empty_world)"
  define r2 where "r2 = unauthed_createPost silent_env create_3k2x w1"
  have new: "is_new create_3k2x (store empty_world)"
    by (simp add: is_new_def key_rows_def empty_world_def empty_database_def)
  have "store w1 = committed_create create_3k2x empty_database"
    unfolding w1_def using new by (simp add: createPost_store) (simp add: empty_world_def)
  then have st: "map rkey (Post_table (store w1)) = [''3k2x'']" "ConsumedOffset_table (store w1) = [7]"
    by (simp_all add: committed_create_def created_row_def create_3k2x_def empty_database_def)
  have "snd r2 = w1 \<and> fst r2 = Inl DuplicateKey"
    using new createPost_replay [of silent_env create_3k2x silent_env empty_world]
    by (simp add: w1_def r2_def)
  then have "r2 = (Inl DuplicateKey, w1)"
    by (simp add: prod_eq_iff)
  then show ?thesis
    using new st unfolding r2_def w1_def by simp
qed

subsection \<open>The notification\<close>

lemma createPost_store_any_env:
  "store (snd (unauthed_createPost env inp w)) = store (snd (unauthed_createPost env' inp w))"
  by (simp add: createPost_store)

lemma notify_requests_grow:
  "\<exists>rs. webhook_requests (snd (notify_new_post env inp w)) = webhook_requests w @ rs"
  by (simp add: notify_new_post_def Let_def split: sum.splits)

lemma createPost_requests_only_after_commit:
  assumes "webhook_requests (snd (unauthed_createPost env inp w)) \<noteq> webhook_requests w"
  shows "store (snd (unauthed_createPost env inp w)) = committed_create inp (store w)"
proof (cases "is_new inp (store w)")
  case True
  then show ?thesis by (simp add: createPost_store)
next
  case False
  from createPost_old [OF False, of env] assms show ?thesis by auto
qed

lemma notify_not_ok_swallowed:
  assumes "truthy (DISCORD_WEBHOOK_URL env)"
    and "getBlueskyProfile env (in_authorDid inp) = Inr prof"
    and "fetch_webhook env (the (DISCORD_WEBHOOK_URL env)) [new_post_embed inp prof] = Inr resp"
    and "\<not> ok resp"
  shows "fst (notify_new_post env inp w) = Inr ()
    \<and> console (snd (notify_new_post env inp w))
        = console w @ [console_error [Str ''Failed to alert of new post'', Str (statusText resp)]]"
  using assms by (simp add: notify_new_post_def Let_def)

lemma notify_profile_rejects:
  assumes "truthy (DISCORD_WEBHOOK_URL env)"
    and "getBlueskyProfile env (in_authorDid inp) = Inl e"
  shows "notify_new_post env inp w = (Inl e, w)"
  using assms by (simp add: notify_new_post_def)

lemma notify_fetch_rejects:
  assumes "truthy (DISCORD_WEBHOOK_URL env)"
    and "getBlueskyProfile env (in_authorDid inp) = Inr prof"
    and "fetch_webhook env (the (DISCORD_WEBHOOK_URL env)) [new_post_embed inp prof] = Inl e"
  shows "fst (notify_new_post env inp w) = Inl e
    \<and> console (snd (notify_new_post env inp w)) = console w"
  using assms by (simp add: notify_new_post_def Let_def)

text \<open>
  Claim C9. A failure of the notification is to be logged and swallowed, the call ending
  normally. \<^verbatim>\<open>unauthed_createPost\<close> does so only for a response that is not ok. At these
  two inputs the Create commits and the webhook URL is set. In the first the \<^verbatim>\<open>fetch\<close>
  of the webhook rejects; in the second the author's profile has no avatar, so
  \<^verbatim>\<open>ProfileResponse.parse\<close> throws and no request is sent. In both the call ends with
  that error and nothing is written to the console, while both rows stay committed.
\<close>

theorem createPost_webhook_rejects:
  "fst (unauthed_createPost webhook_down_env create_3k2x empty_world) = Inl NetworkError
   \<and> console (snd (unauthed_createPost webhook_down_env create_3k2x empty_world)) = []
   \<and> map rkey (Post_table (store (snd (unauthed_createPost webhook_down_env create_3k2x empty_world))))
       = [''3k2x'']
   \<and> ConsumedOffset_table (store (snd (unauthed_createPost webhook_down_env create_3k2x empty_world)))
       = [7]
   \<and> fst (unauthed_createPost no_avatar_env create_3k2x empty_world) = Inl ZodError
   \<and> console (snd (unauthed_createPost no_avatar_env create_3k2x empty_world)) = []
   \<and> webhook_requests (snd (unauthed_createPost no_avatar_env create_3k2x empty_world)) = []
   \<and> map rkey (Post_table (store (snd (unauthed_createPost no_avatar_env create_3k2x empty_world))))
       = [''3k2x'']
   \<and> ConsumedOffset_table (store (snd (unauthed_createPost no_avatar_env create_3k2x empty_world)))
       = [7]"
proof -
  have new: "is_new create_3k2x (store empty_world)"
    by (simp add: is_new_def key_rows_def empty_world_def empty_database_def)
  have prof: "getBlueskyProfile webhook_down_env d
      = Inr \<lparr>avatar = ''https://cdn.example/a.png'', handle = ''alice.example''\<rparr>" for d
    by (simp add: getBlueskyProfile_def webhook_down_env_def ProfileResponse_parse_def)
  have hook: "truthy (DISCORD_WEBHOOK_URL webhook_down_env)"
      "fetch_webhook webhook_down_env u b = Inl NetworkError" for u b
    by (simp_all add: truthy_def webhook_down_env_def)
  have prof': "getBlueskyProfile no_avatar_env d = Inl ZodError" for d
    by (simp add: getBlueskyProfile_def no_avatar_env_def ProfileResponse_parse_def)
  have hook': "truthy (DISCORD_WEBHOOK_URL no_avatar_env)"
    by (simp add: truthy_def no_avatar_env_def)
  have committed: "map rkey (Post_table (committed_create create_3k2x (store empty_world))) = [''3k2x'']"
      "ConsumedOffset_table (committed_create create_3k2x (store empty_world)) = [7]"
    by (simp_all add: committed_create_def created_row_def create_3k2x_def empty_world_def
          empty_database_def)
  have empty: "console empty_world = []" "webhook_requests empty_world = []"
    by (simp_all add: empty_world_def)
  have "unauthed_createPost webhook_down_env create_3k2x empty_world
      = notify_new_post webhook_down_env create_3k2x
          (empty_world\<lparr>store := committed_create create_3k2x (store empty_world)\<rparr>)"
    using new by (rule createPost_new)
  then have down: "fst (unauthed_createPost webhook_down_env create_3k2x empty_world) = Inl NetworkError"
      "console (snd (unauthed_createPost webhook_down_env create_3k2x empty_world)) = []"
      "store (snd (unauthed_createPost webhook_down_env create_3k2x empty_world))
        = committed_create create_3k2x (store empty_world)"
    by (simp_all add: notify_new_post_def prof hook Let_def empty)
  have "unauthed_createPost no_avatar_env create_3k2x empty_world
      = notify_new_post no_avatar_env create_3k2x
          (empty_world\<lparr>store := committed_create create_3k2x (store empty_world)\<rparr>)"
    using new by (rule createPost_new)
  then have none: "fst (unauthed_createPost no_avatar_env create_3k2x empty_world) = Inl ZodError"
      "console (snd (unauthed_createPost no_avatar_env create_3k2x empty_world)) = []"
      "webhook_requests (snd (unauthed_createPost no_avatar_env create_3k2x empty_world)) = []"
      "store (snd (unauthed_createPost no_avatar_env create_3k2x empty_world))
        = committed_create create_3k2x (store empty_world)"
    by (simp_all add: notify_new_post_def prof' hook' empty)
  show ?thesis
    by (simp only: down none committed)
qed

subsection \<open>Left joins\<close>

lemma leftJoin_Nil [simp]: "leftJoin [] tbl on = []"
  by (simp add: leftJoin_def)

lemma leftJoin_append: "leftJoin (xs @ ys) tbl on = leftJoin xs tbl on @ leftJoin ys tbl on"
  by (simp add: leftJoin_def)

lemma leftJoin_Cons: "leftJoin (x # xs) tbl on = leftJoin [x] tbl on @ leftJoin xs tbl on"
  using leftJoin_append [of "[x]" xs tbl on] by simp

lemma leftJoin_single_not_Nil: "leftJoin [x] tbl on \<noteq> []"
  by (cases "filter (on x) tbl") (simp_all add: leftJoin_def)

lemma leftJoin_not_Nil: "leftJoin rows tbl on = [] \<longleftrightarrow> rows = []"
proof (cases rows)
  case Nil
  then show ?thesis by simp
next
  case (Cons x xs)
  then show ?thesis
    using leftJoin_Cons [of x xs tbl on] leftJoin_single_not_Nil [of x tbl on] by simp
qed

lemma in_leftJoin:
  "(x, y) \<in> set (leftJoin rows tbl on) \<longleftrightarrow>
     x \<in> set rows \<and> (case y of None \<Rightarrow> filter (on x) tbl = [] | Some v \<Rightarrow> v \<in> set tbl \<and> on x v)"
proof (induction rows)
  case Nil
  then show ?case by simp
next
  case (Cons a rows)
  have one: "(x, y) \<in> set (leftJoin [a] tbl on) \<longleftrightarrow>
     x = a \<and> (case y of None \<Rightarrow> filter (on x) tbl = [] | Some v \<Rightarrow> v \<in> set tbl \<and> on x v)"
  proof (cases "filter (on a) tbl")
    case Nil
    then show ?thesis by (cases y) (auto simp: leftJoin_def filter_empty_conv)
  next
    case (Cons m ms)
    then have ne: "filter (on a) tbl \<noteq> []" by simp
    have "leftJoin [a] tbl on = map (\<lambda>v. (a, Some v)) (filter (on a) tbl)"
      using Cons by (simp add: leftJoin_def)
    then have S: "set (leftJoin [a] tbl on) = (\<lambda>v. (a, Some v)) ` {v \<in> set tbl. on a v}"
      by simp
    show ?thesis
    proof (cases y)
      case None
      then show ?thesis using ne S by auto
    next
      case (Some v)
      then show ?thesis using S by auto
    qed
  qed
  have "set (leftJoin (a # rows) tbl on) = set (leftJoin [a] tbl on) \<union> set (leftJoin rows tbl on)"
    using leftJoin_append [of "[a]" rows tbl on] by simp
  then show ?case
    using Cons.IH one by auto
qed

lemma hd_leftJoin_fst: "rows \<noteq> [] \<Longrightarrow> fst (hd (leftJoin rows tbl on)) = hd rows"
proof (cases rows)
  case Nil
  then show "rows \<noteq> [] \<Longrightarrow> ?thesis" by simp
next
  case (Cons x xs)
  have "fst (hd (leftJoin [x] tbl on)) = x"
    by (cases "filter (on x) tbl") (simp_all add: leftJoin_def)
  then show ?thesis
    using Cons leftJoin_Cons [of x xs tbl on] leftJoin_single_not_Nil [of x tbl on] by simp
qed

subsection \<open>The sub-queries\<close>

lemma votesSubQuery_count:
  "(i, n) \<in> set (votesSubQuery d) \<longleftrightarrow>
     i \<in> vote_postId ` set (PostVote_table d)
     \<and> n = length (filter (\<lambda>v. vote_postId v = i) (PostVote_table d))"
  by (auto simp: votesSubQuery_def coalesce_def)

lemma votesSubQuery_positive:
  assumes "(i, n) \<in> set (votesSubQuery d)"
  shows "1 \<le> n"
proof -
  from assms obtain v where v: "v \<in> set (PostVote_table d)" "vote_postId v = i"
    and n: "n = length (filter (\<lambda>v. vote_postId v = i) (PostVote_table d))"
    by (auto simp: votesSubQuery_count)
  from v have "filter (\<lambda>v. vote_postId v = i) (PostVote_table d) \<noteq> []"
    by (auto simp: filter_empty_conv)
  then show ?thesis using n by (cases "filter (\<lambda>v. vote_postId v = i) (PostVote_table d)") auto
qed

subsection \<open>The joined rows\<close>

lemma post_joins_not_Nil: "post_joins d hv rows = [] \<longleftrightarrow> rows = []"
  by (simp add: post_joins_def leftJoin_not_Nil)

lemma hd_post_joins: "rows \<noteq> [] \<Longrightarrow> posts (hd (post_joins d hv rows)) = hd rows"
proof -
  assume ne: "rows \<noteq> []"
  let ?j1 = "leftJoin rows (commentCountSubQuery d) (\<lambda>p c. fst c = post_id p)"
  let ?j2 = "leftJoin ?j1 (votesSubQuery d) (\<lambda>(p, c) v. fst v = post_id p)"
  let ?j3 = "leftJoin ?j2 hv (\<lambda>((p, c), v) h. h = post_id p)"
  have n1: "?j1 \<noteq> []" using ne by (simp add: leftJoin_not_Nil)
  have n2: "?j2 \<noteq> []" using n1 by (simp add: leftJoin_not_Nil)
  have n3: "?j3 \<noteq> []" using n2 by (simp add: leftJoin_not_Nil)
  have "fst (fst (fst (hd ?j3))) = hd rows"
    by (simp add: hd_leftJoin_fst n1 n2 ne)
  moreover have "posts (hd (post_joins d hv rows)) = fst (fst (fst (hd ?j3)))"
    using n3 by (simp add: post_joins_def hd_map split: prod.splits)
  ultimately show ?thesis by simp
qed

lemma post_joins_row:
  assumes "row \<in> set (post_joins d hv rows)"
  shows "posts row \<in> set rows"
    and "case vote row of
           None \<Rightarrow> \<forall>x\<in>set (votesSubQuery d). fst x \<noteq> post_id (posts row)
         | Some x \<Rightarrow> x \<in> set (votesSubQuery d) \<and> fst x = post_id (posts row)"
proof -
  from assms obtain p c v h where row: "row = \<lparr>posts = p, commentCount_row = c, vote = v, hasVoted = h\<rparr>"
    and j: "(((p, c), v), h) \<in> set (leftJoin
          (leftJoin
             (leftJoin rows (commentCountSubQuery d) (\<lambda>p c. fst c = post_id p))
             (votesSubQuery d) (\<lambda>(p, c) v. fst v = post_id p))
          hv (\<lambda>((p, c), v) h. h = post_id p))"
    by (auto simp: post_joins_def)
  from j have j2: "((p, c), v) \<in> set (leftJoin
             (leftJoin rows (commentCountSubQuery d) (\<lambda>p c. fst c = post_id p))
             (votesSubQuery d) (\<lambda>(p, c) v. fst v = post_id p))"
    by (simp add: in_leftJoin)
  from j2 have j1: "(p, c) \<in> set (leftJoin rows (commentCountSubQuery d) (\<lambda>p c. fst c = post_id p))"
    by (simp add: in_leftJoin)
  from j2 have vv: "case v of None \<Rightarrow> \<forall>x\<in>set (votesSubQuery d). fst x \<noteq> post_id p
                | Some x \<Rightarrow> x \<in> set (votesSubQuery d) \<and> fst x = post_id p"
    by (auto simp: in_leftJoin filter_empty_conv split: option.splits)
  from j1 show "posts row \<in> set rows" by (simp add: in_leftJoin row)
  from vv show "case vote row of
           None \<Rightarrow> \<forall>x\<in>set (votesSubQuery d). fst x \<noteq> post_id (posts row)
         | Some x \<Rightarrow> x \<in> set (votesSubQuery d) \<and> fst x = post_id (posts row)"
    by (cases v) (simp_all add: row)
qed

lemma posts_of_post_joins: "posts ` set (post_joins d hv rows) = set rows"
proof
  show "posts ` set (post_joins d hv rows) \<subseteq> set rows"
    using post_joins_row(1) by blast
  show "set rows \<subseteq> posts ` set (post_joins d hv rows)"
  proof
    fix p assume "p \<in> set rows"
    then obtain xs ys where "rows = xs @ p # ys" by (auto simp: in_set_conv_decomp)
    then have split: "post_joins d hv rows = post_joins d hv xs @ post_joins d hv [p] @ post_joins d hv ys"
      by (simp add: post_joins_def leftJoin_append leftJoin_Cons [of p ys])
    have "post_joins d hv [p] \<noteq> []" by (simp add: post_joins_not_Nil)
    then have "hd (post_joins d hv [p]) \<in> set (post_joins d hv rows)"
      by (simp add: split)
    moreover have "posts (hd (post_joins d hv [p])) = p"
      by (simp add: hd_post_joins)
    ultimately show "p \<in> posts ` set (post_joins d hv rows)" by force
  qed
qed

lemma voteCount_of_row:
  assumes "row \<in> set (post_joins d hv rows)"
  shows "1 \<le> coalesce (map_option snd (vote row)) 1"
    and "\<forall>v\<in>set (PostVote_table d). vote_postId v \<noteq> post_id (posts row)
         \<Longrightarrow> coalesce (map_option snd (vote row)) 1 = 1"
proof -
  note v = post_joins_row(2) [OF assms]
  show "1 \<le> coalesce (map_option snd (vote row)) 1"
  proof (cases "vote row")
    case None
    then show ?thesis by (simp add: coalesce_def)
  next
    case (Some x)
    with v have "x \<in> set (votesSubQuery d)" by simp
    then have "(fst x, snd x) \<in> set (votesSubQuery d)" by simp
    then have "1 \<le> snd x" by (rule votesSubQuery_positive)
    then show ?thesis using Some by (simp add: coalesce_def)
  qed
  assume none: "\<forall>v\<in>set (PostVote_table d). vote_postId v \<noteq> post_id (posts row)"
  have "vote row = None"
  proof (cases "vote row")
    case None
    then show ?thesis .
  next
    case (Some x)
    with v have xin: "x \<in> set (votesSubQuery d)" and fx: "fst x = post_id (posts row)" by simp_all
    from xin have "(fst x, snd x) \<in> set (votesSubQuery d)" by simp
    then have "fst x \<in> vote_postId ` set (PostVote_table d)" by (simp only: votesSubQuery_count)
    with none fx show ?thesis by auto
  qed
  then show "coalesce (map_option snd (vote row)) 1 = 1" by (simp add: coalesce_def)
qed

subsection \<open>A filter on the Post columns commutes with the joins\<close>

lemma leftJoin_filter:
  "filter (\<lambda>xy. P (fst xy)) (leftJoin rows tbl on) = leftJoin (filter P rows) tbl on"
proof (induction rows)
  case Nil
  show ?case by simp
next
  case (Cons x rows)
  have one: "filter (\<lambda>xy. P (fst xy)) (leftJoin [x] tbl on)
      = (if P x then leftJoin [x] tbl on else [])"
    by (cases "filter (on x) tbl") (simp_all add: leftJoin_def)
  have "filter (\<lambda>xy. P (fst xy)) (leftJoin (x # rows) tbl on)
      = filter (\<lambda>xy. P (fst xy)) (leftJoin [x] tbl on)
        @ filter (\<lambda>xy. P (fst xy)) (leftJoin rows tbl on)"
    using leftJoin_append [of "[x]" rows tbl on] by simp
  also have "\<dots> = (if P x then leftJoin [x] tbl on else []) @ leftJoin (filter P rows) tbl on"
    by (simp only: one Cons.IH)
  also have "\<dots> = leftJoin (filter P (x # rows)) tbl on"
    using leftJoin_append [of "[x]" "filter P rows" tbl on] by simp
  finally show ?case .
qed

lemma post_joins_filter:
  "filter (\<lambda>row. P (posts row)) (post_joins d hv rows) = post_joins d hv (filter P rows)"
proof -
  let ?j1 = "\<lambda>rs. leftJoin rs (commentCountSubQuery d) (\<lambda>p c. fst c = post_id p)"
  let ?j2 = "\<lambda>rs. leftJoin (?j1 rs) (votesSubQuery d) (\<lambda>(p, c) v. fst v = post_id p)"
  let ?j3 = "\<lambda>rs. leftJoin (?j2 rs) hv (\<lambda>((p, c), v) h. h = post_id p)"
  let ?mk = "\<lambda>(((p, c), v), h). \<lparr>posts = p, commentCount_row = c, vote = v, hasVoted = h\<rparr>"
  have "filter (\<lambda>row. P (posts row)) (map ?mk (?j3 rows))
      = map ?mk (filter (\<lambda>t. P (fst (fst (fst t)))) (?j3 rows))"
    by (simp add: filter_map comp_def case_prod_beta)
  also have "filter (\<lambda>t. P (fst (fst (fst t)))) (?j3 rows)
      = leftJoin (filter (\<lambda>t. P (fst (fst t))) (?j2 rows)) hv (\<lambda>((p, c), v) h. h = post_id p)"
    by (rule leftJoin_filter [of "\<lambda>t. P (fst (fst t))"])
  also have "filter (\<lambda>t. P (fst (fst t))) (?j2 rows)
      = leftJoin (filter (\<lambda>t. P (fst t)) (?j1 rows)) (votesSubQuery d) (\<lambda>(p, c) v. fst v = post_id p)"
    by (rule leftJoin_filter [of "\<lambda>t. P (fst t)"])
  also have "filter (\<lambda>t. P (fst t)) (?j1 rows) = ?j1 (filter P rows)"
    by (rule leftJoin_filter)
  finally show ?thesis by (simp add: post_joins_def)
qed

subsection \<open>Ordering keeps the rows\<close>

lemma set_insert_desc: "set (insert_desc k x xs) = insert x (set xs)"
  by (induction xs) auto

lemma set_orderBy_desc: "set (orderBy_desc k xs) = set xs"
  by (induction xs) (simp_all add: orderBy_desc_def set_insert_desc)

lemma set_frontpage_rows:
  "set (frontpage_rows now d hv)
   = {row \<in> set (post_joins d hv (Post_table d)). status (posts row) = live}"
  by (simp add: frontpage_rows_def set_orderBy_desc)

subsection \<open>What the read paths return\<close>

lemma hasVotedQuery_of_user:
  "getUser au = Inr u \<Longrightarrow> \<exists>hv. buildUserHasVotedQuery au d = Inr hv"
  by (simp add: buildUserHasVotedQuery_def)

lemma getFrontpagePosts_rows:
  assumes "getFrontpagePosts au now d = Inr xs"
  shows "\<exists>hv. xs = map listing (frontpage_rows now d hv)"
  using assms by (auto simp: getFrontpagePosts_def split: sum.splits)

lemma getUserPosts_rows:
  assumes "getUserPosts au ud d = Inr xs"
  shows "\<exists>hv. xs = map listing
           (filter (\<lambda>row. authorDid (posts row) = ud \<and> status (posts row) = live)
                   (post_joins d hv (Post_table d)))"
  using assms by (auto simp: getUserPosts_def split: sum.splits)

lemma getPost_row:
  assumes "getPost au a r d = Inr (Some x)"
  shows "\<exists>hv row. row \<in> set (post_joins d hv (key_rows a r d)) \<and> x = detail row"
proof -
  from assms obtain hv where hv: "buildUserHasVotedQuery au d = Inr hv"
    by (auto simp: getPost_def split: sum.splits)
  show ?thesis
  proof (cases "post_joins d hv (key_rows a r d)")
    case Nil
    with assms hv show ?thesis by (simp add: getPost_def limit_def)
  next
    case (Cons row rest)
    with assms hv have "x = detail row" by (simp add: getPost_def limit_def)
    moreover have "row \<in> set (post_joins d hv (key_rows a r d))" by (simp add: Cons)
    ultimately show ?thesis by blast
  qed
qed

lemma getPost_first:
  assumes "getUser au = Inr u" and "key_rows a r d = q # qs"
  shows "\<exists>row. getPost au a r d = Inr (Some (detail row)) \<and> posts row = q"
proof -
  from hasVotedQuery_of_user [OF assms(1)] obtain hv where hv: "buildUserHasVotedQuery au d = Inr hv" ..
  have ne: "key_rows a r d \<noteq> []" using assms(2) by simp
  then have "post_joins d hv (key_rows a r d) \<noteq> []" by (simp add: post_joins_not_Nil)
  then obtain row rest where rows: "post_joins d hv (key_rows a r d) = row # rest"
    by (cases "post_joins d hv (key_rows a r d)") auto
  have "posts (hd (post_joins d hv (key_rows a r d))) = hd (key_rows a r d)"
    using ne by (rule hd_post_joins)
  then have "posts (hd (row # rest)) = hd (key_rows a r d)" by (simp only: rows)
  then have "posts row = q" by (simp add: assms(2))
  moreover have "getPost au a r d = Inr (Some (detail row))"
    by (simp add: getPost_def hv rows limit_def)
  ultimately show ?thesis by blast
qed

lemma unique_key_rows:
  assumes "unique_posts d" and "p \<in> set (Post_table d)"
  shows "key_rows (authorDid p) (rkey p) d = [p]"
proof -
  have "distinct (map (\<lambda>p. (authorDid p, rkey p)) xs) \<Longrightarrow> p \<in> set xs \<Longrightarrow>
        filter (\<lambda>q. authorDid q = authorDid p \<and> rkey q = rkey p) xs = [p]" for xs
  proof (induction xs)
    case Nil
    then show ?case by simp
  next
    case (Cons x xs)
    show ?case
    proof (cases "x = p")
      case True
      with Cons.prems have "(authorDid p, rkey p) \<notin> (\<lambda>p. (authorDid p, rkey p)) ` set xs"
        by simp
      then have "\<forall>q\<in>set xs. \<not> (authorDid q = authorDid p \<and> rkey q = rkey p)"
        by (auto simp: image_iff)
      then have "filter (\<lambda>q. authorDid q = authorDid p \<and> rkey q = rkey p) xs = []"
        by (simp add: filter_empty_conv)
      with True show ?thesis by simp
    next
      case False
      with Cons.prems have "p \<in> set xs" by simp
      with Cons.prems have "(authorDid x, rkey x) \<notin> (\<lambda>p. (authorDid p, rkey p)) ` set xs"
        by simp
      with \<open>p \<in> set xs\<close> have "\<not> (authorDid x = authorDid p \<and> rkey x = rkey p)"
        by (auto simp: image_iff)
      with Cons \<open>p \<in> set xs\<close> show ?thesis by simp
    qed
  qed
  with assms show ?thesis by (simp add: unique_posts_def key_rows_def)
qed

lemma listing_fields [simp]:
  "post_id (listing row) = post_id (posts row)"
  "rkey (listing row) = rkey (posts row)"
  "authorDid (listing row) = authorDid (posts row)"
  "createdAt (listing row) = createdAt (posts row)"
  "voteCount (listing row) = coalesce (map_option snd (vote row)) 1"
  by (simp_all add: listing_def)

lemma detail_fields [simp]:
  "post_id (detail row) = post_id (posts row)"
  "rkey (detail row) = rkey (posts row)"
  "cid (detail row) = cid (posts row)"
  "title (detail row) = title (posts row)"
  "url (detail row) = url (posts row)"
  "createdAt (detail row) = createdAt (posts row)"
  "authorDid (detail row) = authorDid (posts row)"
  "status (detail row) = status (posts row)"
  "post_voteCount (detail row) = coalesce (map_option snd (vote row)) 1"
  by (simp_all add: detail_def)

lemma post_joins_covers:
  assumes "p \<in> set rows"
  shows "\<exists>row\<in>set (post_joins d hv rows). posts row = p"
proof -
  from assms have "p \<in> posts ` set (post_joins d hv rows)"
    by (simp only: posts_of_post_joins)
  then show ?thesis by (auto simp: image_iff)
qed

subsection \<open>The vote count of a post without votes\<close>

text \<open>
  Claim C5. Let a post have no row in the PostVote table. Every row that \<^verbatim>\<open>getPost\<close>,
  \<^verbatim>\<open>getUserPosts\<close> or \<^verbatim>\<open>getFrontpagePosts\<close> returns for it reports the vote count 1, and
  the rank that the front-page query computes for it has the numerator 1. When the post
  is live, the two listings do contain it (with the count 1) whenever they return, and
  under the unique key and a resolvable user \<^verbatim>\<open>getPost\<close> by its key returns it with
  the count 1.
\<close>

theorem zero_vote_floor:
  assumes "p \<in> set (Post_table d)"
    and "\<forall>v\<in>set (PostVote_table d). vote_postId v \<noteq> post_id p"
  shows "(\<forall>x. getPost au a r d = Inr (Some x) \<longrightarrow> post_id x = post_id p \<longrightarrow> post_voteCount x = 1)
    \<and> (\<forall>xs. getUserPosts au ud d = Inr xs \<longrightarrow>
          (\<forall>x\<in>set xs. post_id x = post_id p \<longrightarrow> voteCount x = 1))
    \<and> (\<forall>xs. getFrontpagePosts au now d = Inr xs \<longrightarrow>
          (\<forall>x\<in>set xs. post_id x = post_id p \<longrightarrow> voteCount x = 1))
    \<and> (\<forall>hv. \<forall>row\<in>set (frontpage_rows now d hv). post_id (posts row) = post_id p \<longrightarrow>
          row_rank now row
            = sql_div (Some 1)
                (sql_pow (rank_base now (createdAt (posts row))) 1.8))
    \<and> (status p = live \<longrightarrow>
          (\<forall>xs. getFrontpagePosts au now d = Inr xs \<longrightarrow>
             (\<exists>x\<in>set xs. post_id x = post_id p \<and> voteCount x = 1))
          \<and> (\<forall>xs. getUserPosts au (authorDid p) d = Inr xs \<longrightarrow>
             (\<exists>x\<in>set xs. post_id x = post_id p \<and> voteCount x = 1)))
    \<and> (unique_posts d \<longrightarrow> (\<forall>u. getUser au = Inr u \<longrightarrow>
          (\<exists>x. getPost au (authorDid p) (rkey p) d = Inr (Some x)
               \<and> post_id x = post_id p \<and> post_voteCount x = 1)))"
proof -
  have floor: "coalesce (map_option snd (vote row)) 1 = 1"
    if "row \<in> set (post_joins d hv rows)" "post_id (posts row) = post_id p" for row hv rows
    using voteCount_of_row(2) [OF that(1)] assms(2) that(2) by simp
  have vote_None: "vote row = None"
    if "row \<in> set (post_joins d hv rows)" "post_id (posts row) = post_id p" for row hv rows
  proof (cases "vote row")
    case None
    then show ?thesis .
  next
    case (Some x)
    from post_joins_row(2) [OF that(1)] Some
    have xin: "x \<in> set (votesSubQuery d)" and fx: "fst x = post_id (posts row)" by simp_all
    from xin have "(fst x, snd x) \<in> set (votesSubQuery d)" by simp
    then have "fst x \<in> vote_postId ` set (PostVote_table d)" by (simp only: votesSubQuery_count)
    with assms(2) fx that(2) show ?thesis by auto
  qed
  have c1: "post_voteCount x = 1"
    if "getPost au a' r' d = Inr (Some x)" and id: "post_id x = post_id p" for x a' r'
  proof -
    from getPost_row [OF that(1)] obtain hv row
      where "row \<in> set (post_joins d hv (key_rows a' r' d))" "x = detail row" by blast
    with id floor show "post_voteCount x = 1" by simp
  qed
  have c2: "\<forall>x\<in>set xs. post_id x = post_id p \<longrightarrow> voteCount x = 1"
    if "getUserPosts au ud d = Inr xs" for xs ud
  proof -
    from getUserPosts_rows [OF that] obtain hv where
      "xs = map listing (filter (\<lambda>row. authorDid (posts row) = ud \<and> status (posts row) = live)
                   (post_joins d hv (Post_table d)))" ..
    then show ?thesis using floor by auto
  qed
  have c3: "\<forall>x\<in>set xs. post_id x = post_id p \<longrightarrow> voteCount x = 1"
    if "getFrontpagePosts au now d = Inr xs" for xs
  proof -
    from getFrontpagePosts_rows [OF that] obtain hv where
      "xs = map listing (frontpage_rows now d hv)" ..
    then show ?thesis using floor by (auto simp: set_frontpage_rows)
  qed
  have c4: "\<forall>hv. \<forall>row\<in>set (frontpage_rows now d hv). post_id (posts row) = post_id p \<longrightarrow>
          row_rank now row
            = sql_div (Some 1)
                (sql_pow (rank_base now (createdAt (posts row))) 1.8)"
    using vote_None by (auto simp: set_frontpage_rows row_rank_def rank_def coalesce_def)
  have c5: "\<exists>x\<in>set xs. post_id x = post_id p \<and> voteCount x = 1"
    if live: "status p = live" and xs: "getFrontpagePosts au now d = Inr xs" for xs
  proof -
    from getFrontpagePosts_rows [OF xs] obtain hv where
      xs': "xs = map listing (frontpage_rows now d hv)" ..
    from post_joins_covers [OF assms(1)]
    obtain row where row: "row \<in> set (post_joins d hv (Post_table d))" "posts row = p" by blast
    with live have "row \<in> set (frontpage_rows now d hv)" by (simp add: set_frontpage_rows)
    then have "listing row \<in> set xs" by (simp add: xs')
    moreover have "post_id (listing row) = post_id p \<and> voteCount (listing row) = 1"
      using row floor by simp
    ultimately show ?thesis by blast
  qed
  have c6: "\<exists>x\<in>set xs. post_id x = post_id p \<and> voteCount x = 1"
    if live: "status p = live" and xs: "getUserPosts au (authorDid p) d = Inr xs" for xs
  proof -
    from getUserPosts_rows [OF xs] obtain hv where
      xs': "xs = map listing (filter (\<lambda>row. authorDid (posts row) = authorDid p \<and> status (posts row) = live)
                   (post_joins d hv (Post_table d)))" ..
    from post_joins_covers [OF assms(1)]
    obtain row where row: "row \<in> set (post_joins d hv (Post_table d))" "posts row = p" by blast
    with live have "listing row \<in> set xs" by (simp add: xs')
    moreover have "post_id (listing row) = post_id p \<and> voteCount (listing row) = 1"
      using row floor by simp
    ultimately show ?thesis by blast
  qed
  have c7: "\<exists>x. getPost au (authorDid p) (rkey p) d = Inr (Some x)
               \<and> post_id x = post_id p \<and> post_voteCount x = 1"
    if uniq: "unique_posts d" and u: "getUser au = Inr u" for u
  proof -
    from unique_key_rows [OF uniq assms(1)] have "key_rows (authorDid p) (rkey p) d = p # []" .
    from getPost_first [OF u this] obtain row where
      g: "getPost au (authorDid p) (rkey p) d = Inr (Some (detail row))" and row: "posts row = p"
      by blast
    have "post_id (detail row) = post_id p" by (simp add: row)
    with g c1 [OF g] show ?thesis by blast
  qed
  from c1 c2 c3 c4 c5 c6 c7 show ?thesis by blast
qed

theorem zero_vote_floor_witness:
  "live_3k2x \<in> set (Post_table one_post) \<and> PostVote_table one_post = []
   \<and> (\<exists>xs. getFrontpagePosts anonymous 1700003600000 one_post = Inr xs
         \<and> (\<exists>x\<in>set xs. post_id x = 1 \<and> voteCount x = 1))
   \<and> (\<exists>xs. getUserPosts anonymous ''did:plc:abc123'' one_post = Inr xs
         \<and> (\<exists>x\<in>set xs. post_id x = 1 \<and> voteCount x = 1))
   \<and> (\<exists>x. getPost anonymous ''did:plc:abc123'' ''3k2x'' one_post = Inr (Some x)
         \<and> post_voteCount x = 1)"
proof -
  have p: "live_3k2x \<in> set (Post_table one_post)"
    by (simp add: one_post_def)
  have nv: "\<forall>v\<in>set (PostVote_table one_post). vote_postId v \<noteq> post_id live_3k2x"
    by (simp add: one_post_def empty_database_def)
  have novotes: "PostVote_table one_post = []"
    by (simp add: one_post_def empty_database_def)
  have live: "status live_3k2x = live" and id: "post_id live_3k2x = 1"
    and author: "authorDid live_3k2x = ''did:plc:abc123''" and key: "rkey live_3k2x = ''3k2x''"
    by (simp_all add: live_3k2x_def deleted_3k2x_def)
  have u: "getUser anonymous = Inr None"
    by (simp add: getUser_def anonymous_def)
  have uniq: "unique_posts one_post"
    by (simp add: unique_posts_def one_post_def)
  from hasVotedQuery_of_user [OF u] obtain hv
    where hv: "buildUserHasVotedQuery anonymous one_post = Inr hv" ..
  have fp: "getFrontpagePosts anonymous 1700003600000 one_post
      = Inr (map listing (frontpage_rows 1700003600000 one_post hv))"
    by (simp add: getFrontpagePosts_def hv)
  have up: "getUserPosts anonymous (authorDid live_3k2x) one_post
      = Inr (map listing
                 (filter (\<lambda>row. authorDid (posts row) = authorDid live_3k2x \<and> status (posts row) = live)
                         (post_joins one_post hv (Post_table one_post))))"
    by (simp add: getUserPosts_def hv)
  note T = zero_vote_floor [OF p nv, of anonymous "''did:plc:abc123''" "''3k2x''"
        "''did:plc:abc123''" 1700003600000]
  from T live fp have a: "\<exists>xs. getFrontpagePosts anonymous 1700003600000 one_post = Inr xs
         \<and> (\<exists>x\<in>set xs. post_id x = post_id live_3k2x \<and> voteCount x = 1)"
    by blast
  from T live up have b: "\<exists>xs. getUserPosts anonymous (authorDid live_3k2x) one_post = Inr xs
         \<and> (\<exists>x\<in>set xs. post_id x = post_id live_3k2x \<and> voteCount x = 1)"
    by blast
  from T uniq u have c: "\<exists>x. getPost anonymous (authorDid live_3k2x) (rkey live_3k2x) one_post = Inr (Some x)
         \<and> post_voteCount x = 1"
    by blast
  from p novotes a b c show ?thesis
    by (simp only: id author key) 
qed

subsection \<open>The life of a deleted post\<close>

lemma filter_key_update:
  fixes xs :: "Post list"
  shows "filter (\<lambda>p. authorDid p = a \<and> rkey p = r)
          (map (\<lambda>p. if rkey p = r then p\<lparr>status := st\<rparr> else p) xs)
        = map (\<lambda>p. p\<lparr>status := st\<rparr>) (filter (\<lambda>p. authorDid p = a \<and> rkey p = r) xs)"
proof (induction xs)
  case Nil
  show ?case by simp
next
  case (Cons x xs)
  show ?case
  proof (cases "rkey x = r")
    case True
    then show ?thesis using Cons.IH by simp
  next
    case False
    then show ?thesis using Cons.IH by simp
  qed
qed

lemma key_rows_after_update:
  "key_rows a r (update_Post_status_where_rkey st r d)
   = map (\<lambda>p. p\<lparr>status := st\<rparr>) (key_rows a r d)"
  by (simp add: key_rows_def update_Post_status_where_rkey_def filter_key_update)

lemma key_rows_offsets [simp]:
  "key_rows a r (d\<lparr>ConsumedOffset_table := offs\<rparr>) = key_rows a r d"
  by (simp add: key_rows_def)

lemma deleted_rows_not_live:
  assumes "q \<in> set (Post_table (update_Post_status_where_rkey deleted r d))" and "rkey q = r"
  shows "status q = deleted"
proof -
  from assms(1) obtain p where p: "p \<in> set (Post_table d)"
    and q: "q = (if rkey p = r then p\<lparr>status := deleted\<rparr> else p)"
    by (auto simp: update_Post_status_where_rkey_def)
  show ?thesis
  proof (cases "rkey p = r")
    case True
    with q show ?thesis by simp
  next
    case False
    with q assms(2) show ?thesis by simp
  qed
qed

text \<open>
  Claim C4. Let a Delete event with a fresh offset name the rkey of an existing live
  post, and let the current user be resolvable. Before the delete the front page lists
  the post. The delete succeeds; afterwards the Post table has the same rows with the
  same ids, among them the post with the status \<^verbatim>\<open>deleted\<close>; the front page lists no
  post with that rkey; and \<^verbatim>\<open>getPost\<close> by the post's (authorDid, rkey) returns a post
  of that key with the status \<^verbatim>\<open>deleted\<close> (under the unique key: this very post, all
  other fields unchanged).
\<close>

theorem soft_delete_lifecycle:
  assumes "p \<in> set (Post_table (store w))" and "status p = live"
    and "del_rkey inp = rkey p"
    and "del_offset inp \<notin> set (ConsumedOffset_table (store w))"
    and "getUser au = Inr u"
  shows "(\<exists>xs. getFrontpagePosts au now (store w) = Inr xs \<and> (\<exists>x\<in>set xs. post_id x = post_id p))
    \<and> fst (unauthed_deletePost inp w) = Inr ()
    \<and> p\<lparr>status := deleted\<rparr> \<in> set (Post_table (store (snd (unauthed_deletePost inp w))))
    \<and> map post_id (Post_table (store (snd (unauthed_deletePost inp w))))
        = map post_id (Post_table (store w))
    \<and> (\<exists>xs. getFrontpagePosts au now (store (snd (unauthed_deletePost inp w))) = Inr xs
          \<and> (\<forall>x\<in>set xs. rkey x \<noteq> rkey p))
    \<and> (\<exists>x. getPost au (authorDid p) (rkey p) (store (snd (unauthed_deletePost inp w))) = Inr (Some x)
          \<and> status x = deleted \<and> authorDid x = authorDid p \<and> rkey x = rkey p
          \<and> (unique_posts (store w) \<longrightarrow>
                post_id x = post_id p \<and> cid x = cid p \<and> title x = title p \<and> url x = url p
                \<and> createdAt x = createdAt p))"
proof -
  define d' where "d' = store (snd (unauthed_deletePost inp w))"
  have d': "d' = (update_Post_status_where_rkey deleted (rkey p) (store w))
             \<lparr>ConsumedOffset_table := ConsumedOffset_table (store w) @ [del_offset inp]\<rparr>"
    using assms(3,4) by (simp add: d'_def deletePost_store)
  have tbl: "Post_table d' = map (\<lambda>q. if rkey q = rkey p then q\<lparr>status := deleted\<rparr> else q)
                               (Post_table (store w))"
    by (simp add: d' update_Post_status_where_rkey_def)
  have before: "\<exists>xs. getFrontpagePosts au now (store w) = Inr xs \<and> (\<exists>x\<in>set xs. post_id x = post_id p)"
  proof -
    from hasVotedQuery_of_user [OF assms(5)] obtain hv
      where hv: "buildUserHasVotedQuery au (store w) = Inr hv" ..
    from post_joins_covers [OF assms(1)] obtain row
      where "row \<in> set (post_joins (store w) hv (Post_table (store w)))" "posts row = p" by blast
    with assms(2) have "row \<in> set (frontpage_rows now (store w) hv)" "post_id (listing row) = post_id p"
      by (simp_all add: set_frontpage_rows)
    then have "\<exists>x\<in>set (map listing (frontpage_rows now (store w) hv)). post_id x = post_id p"
      by auto
    then show ?thesis by (simp add: getFrontpagePosts_def hv)
  qed
  have ok: "fst (unauthed_deletePost inp w) = Inr ()"
    using assms(4) by (simp add: deletePost_result)
  have kept: "p\<lparr>status := deleted\<rparr> \<in> set (Post_table d')"
  proof -
    let ?f = "\<lambda>q. if rkey q = rkey p then q\<lparr>status := deleted\<rparr> else q"
    from assms(1) have "?f p \<in> ?f ` set (Post_table (store w))" by (rule imageI)
    then show ?thesis by (simp add: tbl)
  qed
  have ids: "map post_id (Post_table d') = map post_id (Post_table (store w))"
    by (simp add: tbl)
  have after: "\<exists>xs. getFrontpagePosts au now d' = Inr xs \<and> (\<forall>x\<in>set xs. rkey x \<noteq> rkey p)"
  proof -
    from hasVotedQuery_of_user [OF assms(5)] obtain hv
      where hv: "buildUserHasVotedQuery au d' = Inr hv" ..
    have "rkey (posts row) \<noteq> rkey p" if "row \<in> set (frontpage_rows now d' hv)" for row
    proof
      assume eq: "rkey (posts row) = rkey p"
      from that have j: "row \<in> set (post_joins d' hv (Post_table d'))"
        and live: "status (posts row) = live"
        by (simp_all add: set_frontpage_rows)
      from j have in_tbl: "posts row \<in> set (Post_table d')" by (rule post_joins_row(1))
      from in_tbl have "posts row \<in> set (Post_table (update_Post_status_where_rkey deleted (rkey p) (store w)))"
        by (simp add: d')
      from deleted_rows_not_live [OF this eq] live show False by simp
    qed
    then have "\<forall>x\<in>set (map listing (frontpage_rows now d' hv)). rkey x \<noteq> rkey p"
      by auto
    then show ?thesis by (simp add: getFrontpagePosts_def hv)
  qed
  have lookup: "\<exists>x. getPost au (authorDid p) (rkey p) d' = Inr (Some x)
          \<and> status x = deleted \<and> authorDid x = authorDid p \<and> rkey x = rkey p
          \<and> (unique_posts (store w) \<longrightarrow>
                post_id x = post_id p \<and> cid x = cid p \<and> title x = title p \<and> url x = url p
                \<and> createdAt x = createdAt p)"
  proof -
    have k: "key_rows (authorDid p) (rkey p) d'
           = map (\<lambda>q. q\<lparr>status := deleted\<rparr>) (key_rows (authorDid p) (rkey p) (store w))"
      by (simp add: d' key_rows_after_update)
    have "p \<in> set (key_rows (authorDid p) (rkey p) (store w))"
      using assms(1) by (simp add: key_rows_def)
    then obtain q qs where old: "key_rows (authorDid p) (rkey p) (store w) = q # qs"
      by (cases "key_rows (authorDid p) (rkey p) (store w)") auto
    then have "q \<in> set (key_rows (authorDid p) (rkey p) (store w))" by simp
    then have q: "authorDid q = authorDid p" "rkey q = rkey p" by (simp_all add: key_rows_def)
    have uq: "q = p" if "unique_posts (store w)"
      using unique_key_rows [OF that assms(1)] old by simp
    have "key_rows (authorDid p) (rkey p) d' = q\<lparr>status := deleted\<rparr> # map (\<lambda>q. q\<lparr>status := deleted\<rparr>) qs"
      by (simp add: k old)
    from getPost_first [OF assms(5) this] obtain row where
      g: "getPost au (authorDid p) (rkey p) d' = Inr (Some (detail row))"
      and row: "posts row = q\<lparr>status := deleted\<rparr>"
      by blast
    have basic: "status (detail row) = deleted" "authorDid (detail row) = authorDid p"
        "rkey (detail row) = rkey p"
      by (simp_all add: row q)
    have same: "post_id (detail row) = post_id p \<and> cid (detail row) = cid p
        \<and> title (detail row) = title p \<and> url (detail row) = url p
        \<and> createdAt (detail row) = createdAt p" if "unique_posts (store w)"
      using uq [OF that] by (simp add: row)
    from g basic same show ?thesis by blast
  qed
  from before ok kept ids after lookup show ?thesis
    unfolding d'_def by blast
qed

theorem soft_delete_lifecycle_witness:
  "live_3k2x \<in> set (Post_table one_post) \<and> status live_3k2x = live
   \<and> fst (unauthed_deletePost delete_3k2x (empty_world\<lparr>store := one_post\<rparr>)) = Inr ()
   \<and> deleted_3k2x \<in> set (Post_table
         (store (snd (unauthed_deletePost delete_3k2x (empty_world\<lparr>store := one_post\<rparr>)))))
   \<and> (\<exists>xs. getFrontpagePosts anonymous 1700003600000
               (store (snd (unauthed_deletePost delete_3k2x (empty_world\<lparr>store := one_post\<rparr>))))
             = Inr xs \<and> (\<forall>x\<in>set xs. rkey x \<noteq> ''3k2x''))
   \<and> (\<exists>x. getPost anonymous ''did:plc:abc123'' ''3k2x''
              (store (snd (unauthed_deletePost delete_3k2x (empty_world\<lparr>store := one_post\<rparr>))))
             = Inr (Some x) \<and> status x = deleted \<and> post_id x = 1)"
proof -
  define w where "w = empty_world\<lparr>store := one_post\<rparr>"
  have p: "live_3k2x \<in> set (Post_table (store w))"
    by (simp add: w_def one_post_def)
  have live: "status live_3k2x = live" and id: "post_id live_3k2x = 1"
    and author: "authorDid live_3k2x = ''did:plc:abc123''" and key: "rkey live_3k2x = ''3k2x''"
    and del: "live_3k2x\<lparr>status := deleted\<rparr> = deleted_3k2x"
    by (simp_all add: live_3k2x_def deleted_3k2x_def)
  have r: "del_rkey delete_3k2x = rkey live_3k2x"
    by (simp add: delete_3k2x_def key)
  have off: "del_offset delete_3k2x \<notin> set (ConsumedOffset_table (store w))"
    by (simp add: delete_3k2x_def w_def one_post_def)
  have u: "getUser anonymous = Inr None"
    by (simp add: getUser_def anonymous_def)
  have uniq: "unique_posts (store w)"
    by (simp add: unique_posts_def w_def one_post_def)
  note T = soft_delete_lifecycle [OF p live r off u, of 1700003600000]
  from T have a: "fst (unauthed_deletePost delete_3k2x w) = Inr ()"
    and b: "live_3k2x\<lparr>status := deleted\<rparr> \<in> set (Post_table (store (snd (unauthed_deletePost delete_3k2x w))))"
    and c: "\<exists>xs. getFrontpagePosts anonymous 1700003600000 (store (snd (unauthed_deletePost delete_3k2x w)))
             = Inr xs \<and> (\<forall>x\<in>set xs. rkey x \<noteq> rkey live_3k2x)"
    by blast+
  from T uniq have e: "\<exists>x. getPost anonymous (authorDid live_3k2x) (rkey live_3k2x)
              (store (snd (unauthed_deletePost delete_3k2x w)))
             = Inr (Some x) \<and> status x = deleted \<and> post_id x = post_id live_3k2x"
    by blast
  from p live a b c e show ?thesis
    unfolding w_def by (simp only: id author key del) (simp add: one_post_def)
qed

subsection \<open>The rank and the score\<close>

lemma rank_base_readable:
  assumes "clock_readable now" and "date_readable c"
  shows "rank_base now c = Some (hoursSince c now + 2)"
  using assms
  by (simp add: rank_base_def JULIANDAY_def JULIANDAY_now_def sql_arith_def hoursSince_def
      field_simps)

lemma rank_base_unreadable:
  assumes "\<not> (clock_readable now \<and> date_readable c)"
  shows "rank_base now c = None"
  using assms
  by (auto simp: rank_base_def JULIANDAY_def JULIANDAY_now_def sql_arith_def)

lemma rank_unreadable:
  assumes "\<not> (clock_readable now \<and> date_readable c)"
  shows "rank now vc c = None"
  by (simp add: rank_def rank_base_unreadable [OF assms] sql_pow_def sql_div_def)

lemma rank_eq_score:
  "rank now vc c =
     (if clock_readable now \<and> date_readable c \<and> 0 < hoursSince c now + 2
      then Some (score (coalesce vc 1) c now) else None)"
proof (cases "clock_readable now \<and> date_readable c")
  case False
  then have "rank now vc c = None" by (rule rank_unreadable)
  with False show ?thesis by auto
next
  case True
  then have base: "rank_base now c = Some (hoursSince c now + 2)"
    by (simp add: rank_base_readable)
  let ?b = "hoursSince c now + 2"
  consider "?b < 0" | "?b = 0" | "0 < ?b" by linarith
  then show ?thesis
  proof cases
    case 1
    then show ?thesis unfolding rank_def base by (simp add: sql_pow_def sql_div_def)
  next
    case 2
    then show ?thesis unfolding rank_def base by (simp add: sql_pow_def sql_div_def)
  next
    case 3
    then have "?b powr 1.8 \<noteq> 0" by simp
    with 3 True show ?thesis
      unfolding rank_def base by (simp add: sql_pow_def sql_div_def score_def)
  qed
qed

lemma rank_coalesced: "rank now (Some (coalesce vc 1)) c = rank now vc c"
  by (simp add: rank_eq_score coalesce_def)

lemma quotient_decreases:
  fixes v x y :: real
  assumes "0 < v" and "0 < x" and "x < y"
  shows "v / y powr 1.8 < v / x powr 1.8"
proof -
  have lt: "x powr 1.8 < y powr 1.8"
    using assms(2,3) by (intro powr_less_mono2) simp_all
  have px: "0 < x powr 1.8" using assms(2) by simp
  with lt have py: "0 < y powr 1.8" by linarith
  have "0 < y powr 1.8 * x powr 1.8" by (rule mult_pos_pos [OF py px])
  with lt assms(1) show ?thesis by (rule divide_strict_left_mono)
qed

lemma score_age_mono:
  assumes "0 \<le> hoursSince c1 now" and "hoursSince c1 now < hoursSince c2 now" and "1 \<le> v"
  shows "score v c2 now < score v c1 now"
proof -
  have "0 < real v" using assms(3) by simp
  moreover have "0 < hoursSince c1 now + 2" using assms(1) by simp
  moreover have "hoursSince c1 now + 2 < hoursSince c2 now + 2" using assms(2) by simp
  ultimately show ?thesis unfolding score_def by (rule quotient_decreases)
qed

lemma score_votes_mono:
  assumes "0 < hoursSince c1 now + 2" and "hoursSince c1 now = hoursSince c2 now" and "v1 < v2"
  shows "score v1 c1 now < score v2 c2 now"
proof -
  have "0 < (hoursSince c1 now + 2) powr 1.8" using assms(1) by simp
  moreover have "real v1 < real v2" using assms(3) by simp
  ultimately show ?thesis
    unfolding score_def assms(2) [symmetric] by (intro divide_strict_right_mono)
qed


subsection \<open>The order of the front page\<close>

lemma sql_le_total: "sql_le a b \<or> sql_le b a"
  by (cases a; cases b) (auto simp: sql_le_def)

lemma sql_le_trans: "sql_le a b \<Longrightarrow> sql_le b c \<Longrightarrow> sql_le a c"
  by (cases a; cases b; cases c) (auto simp: sql_le_def)

lemma sorted_insert_desc:
  assumes "sorted_wrt (\<lambda>x y. sql_le (k y) (k x)) xs"
  shows "sorted_wrt (\<lambda>x y. sql_le (k y) (k x)) (insert_desc k x xs)"
  using assms
proof (induction xs)
  case Nil
  then show ?case by simp
next
  case (Cons y ys)
  show ?case
  proof (cases "sql_le (k y) (k x)")
    case True
    have "\<forall>z\<in>set ys. sql_le (k z) (k x)"
      using Cons.prems True sql_le_trans by auto
    with True Cons.prems show ?thesis by simp
  next
    case False
    then have "sql_le (k x) (k y)" using sql_le_total by blast
    with False Cons show ?thesis by (simp add: set_insert_desc)
  qed
qed

lemma sorted_orderBy_desc: "sorted_wrt (\<lambda>x y. sql_le (k y) (k x)) (orderBy_desc k xs)"
proof (induction xs)
  case Nil
  show ?case by (simp add: orderBy_desc_def)
next
  case (Cons x xs)
  then have "sorted_wrt (\<lambda>x y. sql_le (k y) (k x)) (insert_desc k x (orderBy_desc k xs))"
    by (rule sorted_insert_desc)
  then show ?case by (simp add: orderBy_desc_def)
qed

lemma listing_rank_row: "listing_rank now (listing row) = row_rank now row"
  by (simp only: listing_rank_def row_rank_def listing_fields rank_coalesced)

lemma frontpage_votes_positive:
  assumes "row \<in> set (frontpage_rows now d hv)"
  shows "1 \<le> voteCount (listing row)"
proof -
  from assms have "row \<in> set (post_joins d hv (Post_table d))"
    by (simp add: set_frontpage_rows)
  then have "1 \<le> coalesce (map_option snd (vote row)) 1" by (rule voteCount_of_row(1))
  then show ?thesis by (simp only: listing_fields)
qed

lemma voteCount_of_row_count:
  assumes "row \<in> set (post_joins d hv rows)"
  shows "coalesce (map_option snd (vote row)) 1
    = max 1 (length (filter (\<lambda>v. vote_postId v = post_id (posts row)) (PostVote_table d)))"
proof (cases "\<forall>v\<in>set (PostVote_table d). vote_postId v \<noteq> post_id (posts row)")
  case True
  then have "filter (\<lambda>v. vote_postId v = post_id (posts row)) (PostVote_table d) = []"
    by (simp add: filter_empty_conv)
  moreover have "coalesce (map_option snd (vote row)) 1 = 1"
    using True by (intro voteCount_of_row(2) [OF assms])
  ultimately show ?thesis by simp
next
  case False
  let ?n = "length (filter (\<lambda>v. vote_postId v = post_id (posts row)) (PostVote_table d))"
  from False obtain v0 where "v0 \<in> set (PostVote_table d)" "vote_postId v0 = post_id (posts row)"
    by blast
  then have "post_id (posts row) \<in> vote_postId ` set (PostVote_table d)"
    by (metis imageI)
  then have inq: "(post_id (posts row), ?n) \<in> set (votesSubQuery d)"
    by (simp only: votesSubQuery_count)
  note v = post_joins_row(2) [OF assms]
  have "vote row = Some (post_id (posts row), ?n)"
  proof (cases "vote row")
    case None
    with v inq show ?thesis by force
  next
    case (Some x)
    with v have xin: "x \<in> set (votesSubQuery d)" and fx: "fst x = post_id (posts row)"
      by simp_all
    from xin have "(fst x, snd x) \<in> set (votesSubQuery d)" by simp
    then have "snd x = length (filter (\<lambda>v. vote_postId v = fst x) (PostVote_table d))"
      by (simp only: votesSubQuery_count)
    with fx have "x = (post_id (posts row), ?n)" by (simp add: prod_eq_iff)
    with Some show ?thesis by simp
  qed
  moreover have "1 \<le> ?n" using inq by (rule votesSubQuery_positive)
  ultimately show ?thesis by (simp add: coalesce_def)
qed

lemma frontpage_lists_live:
  assumes "p \<in> set (Post_table d)" and "status p = live"
    and "getFrontpagePosts au now d = Inr xs"
  shows "\<exists>x\<in>set xs. post_id x = post_id p \<and> createdAt x = createdAt p
           \<and> voteCount x
               = max 1 (length (filter (\<lambda>v. vote_postId v = post_id p) (PostVote_table d)))"
proof -
  from getFrontpagePosts_rows [OF assms(3)] obtain hv
    where xs: "xs = map listing (frontpage_rows now d hv)" ..
  from post_joins_covers [OF assms(1)] obtain row
    where row: "row \<in> set (post_joins d hv (Post_table d))" and p: "posts row = p" by blast
  from row p assms(2) have "row \<in> set (frontpage_rows now d hv)"
    by (simp add: set_frontpage_rows)
  then have "listing row \<in> set xs" by (simp add: xs)
  moreover have "post_id (listing row) = post_id p" "createdAt (listing row) = createdAt p"
    by (simp_all add: p)
  moreover have "voteCount (listing row)
      = max 1 (length (filter (\<lambda>v. vote_postId v = post_id p) (PostVote_table d)))"
    using voteCount_of_row_count [OF row] by (simp only: listing_fields p)
  ultimately show ?thesis by blast
qed

lemma bc_rank_null:
  "rank 1700003600000 vc (createdAt post_200bc) = None"
  "rank 1700003600000 vc (createdAt post_100bc) = None"
  by (simp_all add: rank_unreadable date_readable_def post_200bc_def post_100bc_def)

lemma bc_frontpage_rows:
  "frontpage_rows 1700003600000 bc_posts []
   = [\<lparr>posts = post_200bc, commentCount_row = None, vote = None, hasVoted = None\<rparr>,
      \<lparr>posts = post_100bc, commentCount_row = None, vote = None, hasVoted = None\<rparr>]"
proof -
  have live: "status post_200bc = live" "status post_100bc = live"
    by (simp_all add: post_200bc_def post_100bc_def)
  have joins: "post_joins bc_posts [] (Post_table bc_posts)
      = [\<lparr>posts = post_200bc, commentCount_row = None, vote = None, hasVoted = None\<rparr>,
         \<lparr>posts = post_100bc, commentCount_row = None, vote = None, hasVoted = None\<rparr>]"
    by (simp add: post_joins_def leftJoin_def commentCountSubQuery_def votesSubQuery_def
        bc_posts_def empty_database_def)
  show ?thesis
    by (simp add: frontpage_rows_def joins live orderBy_desc_def row_rank_def bc_rank_null
        sql_le_def)
qed

lemma bc_ages:
  "0 \<le> hoursSince (- 65322892800000) 1700003600000"
  "hoursSince (- 65322892800000) 1700003600000 < hoursSince (- 68478566400000) 1700003600000"
  "0 \<le> hoursSince (- 68478566400000) 1700003600000"
  by (simp_all add: hoursSince_def)

text \<open>
  Claim C6, as it is written, fails for posts whose createdAt is not a date that SQLite
  reads. Both posts of this store are live, have the vote count 1 and a positive age at
  the query time, and the second is the younger one. The query computes the rank NULL for
  both, so the younger post does not rank strictly higher, and the front page lists it
  second although its score, as the specification computes it, is the higher one.
\<close>

theorem ranking_monotone_counterexample:
  "getFrontpagePosts anonymous 1700003600000 bc_posts
     = Inr (map listing (frontpage_rows 1700003600000 bc_posts []))
   \<and> map post_id (map listing (frontpage_rows 1700003600000 bc_posts [])) = [1, 2]
   \<and> map createdAt (map listing (frontpage_rows 1700003600000 bc_posts []))
       = [- 68478566400000, - 65322892800000]
   \<and> map voteCount (map listing (frontpage_rows 1700003600000 bc_posts [])) = [1, 1]
   \<and> map (listing_rank 1700003600000) (map listing (frontpage_rows 1700003600000 bc_posts []))
       = [None, None]
   \<and> 0 \<le> hoursSince (- 65322892800000) 1700003600000
   \<and> hoursSince (- 65322892800000) 1700003600000 < hoursSince (- 68478566400000) 1700003600000
   \<and> score 1 (- 68478566400000) 1700003600000 < score 1 (- 65322892800000) 1700003600000"
proof -
  have u: "getUser anonymous = Inr None"
    by (simp add: getUser_def anonymous_def)
  have hv: "buildUserHasVotedQuery anonymous bc_posts = Inr []"
    by (simp add: buildUserHasVotedQuery_def u bc_posts_def empty_database_def)
  have fp: "getFrontpagePosts anonymous 1700003600000 bc_posts
     = Inr (map listing (frontpage_rows 1700003600000 bc_posts []))"
    by (simp add: getFrontpagePosts_def hv)
  have fields: "post_id post_200bc = 1" "post_id post_100bc = 2"
      "createdAt post_200bc = - 68478566400000" "createdAt post_100bc = - 65322892800000"
    by (simp_all add: post_200bc_def post_100bc_def)
  have ids: "map post_id (map listing (frontpage_rows 1700003600000 bc_posts [])) = [1, 2]"
    by (simp add: bc_frontpage_rows fields)
  have dates: "map createdAt (map listing (frontpage_rows 1700003600000 bc_posts []))
       = [- 68478566400000, - 65322892800000]"
    by (simp add: bc_frontpage_rows fields)
  have votes: "map voteCount (map listing (frontpage_rows 1700003600000 bc_posts [])) = [1, 1]"
    by (simp add: bc_frontpage_rows coalesce_def)
  have ranks: "map (listing_rank 1700003600000)
        (map listing (frontpage_rows 1700003600000 bc_posts [])) = [None, None]"
    by (simp add: bc_frontpage_rows listing_rank_row row_rank_def bc_rank_null)
  have "score 1 (- 68478566400000) 1700003600000 < score 1 (- 65322892800000) 1700003600000"
    using bc_ages(1,2) by (rule score_age_mono) simp
  with fp ids dates votes ranks bc_ages(1,2) show ?thesis by (simp only: simp_thms)
qed

text \<open>
  Claim C6, amended. The list that \<^verbatim>\<open>getFrontpagePosts\<close> returns is in descending order
  of the rank that the query computed for its rows, rows with the rank NULL last. A row
  whose createdAt is not a date that SQLite reads (a year before 0000 or after 9999) has
  the rank NULL. For any two rows whose createdAt is such a date and whose ages at the
  query time are not negative: with equal vote counts the row with the strictly smaller
  age has the strictly higher rank, and with equal ages the row with the strictly higher
  vote count has the strictly higher rank.
\<close>

theorem ranking_monotone:
  assumes "getFrontpagePosts au now d = Inr xs"
  shows "sorted_wrt (\<lambda>x y. sql_le (listing_rank now y) (listing_rank now x)) xs
    \<and> (\<exists>hv. xs = map listing (frontpage_rows now d hv)
          \<and> map (listing_rank now) xs = map (row_rank now) (frontpage_rows now d hv))
    \<and> (\<forall>x\<in>set xs. \<not> (clock_readable now \<and> date_readable (createdAt x)) \<longrightarrow>
          listing_rank now x = None)
    \<and> (\<forall>x\<in>set xs. \<forall>y\<in>set xs.
          clock_readable now \<and> date_readable (createdAt x) \<and> date_readable (createdAt y)
          \<and> 0 \<le> hoursSince (createdAt x) now \<and> 0 \<le> hoursSince (createdAt y) now \<longrightarrow>
            (voteCount x = voteCount y
               \<and> hoursSince (createdAt x) now < hoursSince (createdAt y) now \<longrightarrow>
                 (\<exists>s t. listing_rank now x = Some s \<and> listing_rank now y = Some t \<and> t < s))
            \<and> (hoursSince (createdAt x) now = hoursSince (createdAt y) now
               \<and> voteCount y < voteCount x \<longrightarrow>
                 (\<exists>s t. listing_rank now x = Some s \<and> listing_rank now y = Some t \<and> t < s)))"
proof -
  from getFrontpagePosts_rows [OF assms] obtain hv
    where xs: "xs = map listing (frontpage_rows now d hv)" ..
  have "sorted_wrt (\<lambda>x y. sql_le (row_rank now y) (row_rank now x)) (frontpage_rows now d hv)"
    unfolding frontpage_rows_def by (rule sorted_orderBy_desc)
  then have sorted: "sorted_wrt (\<lambda>x y. sql_le (listing_rank now y) (listing_rank now x)) xs"
    by (simp add: xs sorted_wrt_map listing_rank_row)
  have ranks: "map (listing_rank now) xs = map (row_rank now) (frontpage_rows now d hv)"
    by (simp add: xs listing_rank_row)
  have null: "listing_rank now x = None"
    if "\<not> (clock_readable now \<and> date_readable (createdAt x))" for x
    unfolding listing_rank_def using that by (rule rank_unreadable)
  have pos: "1 \<le> voteCount x" if "x \<in> set xs" for x
    using that frontpage_votes_positive by (auto simp: xs)
  have val: "listing_rank now x = Some (score (voteCount x) (createdAt x) now)"
    if "clock_readable now" "date_readable (createdAt x)" "0 \<le> hoursSince (createdAt x) now" for x
    using that by (simp add: listing_rank_def rank_eq_score coalesce_def)
  have age: "\<exists>s t. listing_rank now x = Some s \<and> listing_rank now y = Some t \<and> t < s"
    if "x \<in> set xs" "clock_readable now" "date_readable (createdAt x)" "date_readable (createdAt y)"
      "0 \<le> hoursSince (createdAt x) now" "0 \<le> hoursSince (createdAt y) now"
      "voteCount x = voteCount y" "hoursSince (createdAt x) now < hoursSince (createdAt y) now"
    for x y
  proof -
    have "score (voteCount x) (createdAt y) now < score (voteCount x) (createdAt x) now"
      using that(5,8) pos [OF that(1)] by (rule score_age_mono)
    then show ?thesis
      using val [OF that(2,3,5)] val [OF that(2,4,6)] that(7) by simp
  qed
  have votes: "\<exists>s t. listing_rank now x = Some s \<and> listing_rank now y = Some t \<and> t < s"
    if "clock_readable now" "date_readable (createdAt x)" "date_readable (createdAt y)"
      "0 \<le> hoursSince (createdAt x) now" "0 \<le> hoursSince (createdAt y) now"
      "hoursSince (createdAt x) now = hoursSince (createdAt y) now" "voteCount y < voteCount x"
    for x y
  proof -
    have "0 < hoursSince (createdAt y) now + 2" using that(5) by simp
    then have "score (voteCount y) (createdAt y) now < score (voteCount x) (createdAt x) now"
      using that(6) [symmetric] that(7) by (rule score_votes_mono)
    then show ?thesis using val [OF that(1,2,4)] val [OF that(1,3,5)] by simp
  qed
  from sorted xs ranks null age votes show ?thesis by blast
qed

theorem ranking_monotone_witness:
  "(\<exists>xs. getFrontpagePosts anonymous 1700003600000 two_posts = Inr xs
     \<and> sorted_wrt (\<lambda>x y. sql_le (listing_rank 1700003600000 y) (listing_rank 1700003600000 x)) xs
     \<and> (\<exists>x\<in>set xs. \<exists>y\<in>set xs. post_id x = 2 \<and> post_id y = 1
           \<and> voteCount x = voteCount y
           \<and> hoursSince (createdAt x) 1700003600000 < hoursSince (createdAt y) 1700003600000
           \<and> (\<exists>s t. listing_rank 1700003600000 x = Some s
                  \<and> listing_rank 1700003600000 y = Some t \<and> t < s)))
   \<and> (\<exists>xs. getFrontpagePosts anonymous 1700003600000 voted_posts = Inr xs
     \<and> (\<exists>x\<in>set xs. \<exists>y\<in>set xs. post_id x = 2 \<and> post_id y = 1
           \<and> voteCount x = 2 \<and> voteCount y = 1
           \<and> hoursSince (createdAt x) 1700003600000 = hoursSince (createdAt y) 1700003600000
           \<and> (\<exists>s t. listing_rank 1700003600000 x = Some s
                  \<and> listing_rank 1700003600000 y = Some t \<and> t < s)))"
proof -
  have u: "getUser anonymous = Inr None"
    by (simp add: getUser_def anonymous_def)
  have clock: "clock_readable 1700003600000"
    by (simp add: clock_readable_def)
  have old: "status live_3k2x = live" "post_id live_3k2x = 1" "createdAt live_3k2x = 1700000000000"
    by (simp_all add: live_3k2x_def deleted_3k2x_def)
  have first: "\<exists>xs. getFrontpagePosts anonymous 1700003600000 two_posts = Inr xs
     \<and> sorted_wrt (\<lambda>x y. sql_le (listing_rank 1700003600000 y) (listing_rank 1700003600000 x)) xs
     \<and> (\<exists>x\<in>set xs. \<exists>y\<in>set xs. post_id x = 2 \<and> post_id y = 1
           \<and> voteCount x = voteCount y
           \<and> hoursSince (createdAt x) 1700003600000 < hoursSince (createdAt y) 1700003600000
           \<and> (\<exists>s t. listing_rank 1700003600000 x = Some s
                  \<and> listing_rank 1700003600000 y = Some t \<and> t < s))"
  proof -
    from hasVotedQuery_of_user [OF u] obtain hv
      where hv: "buildUserHasVotedQuery anonymous two_posts = Inr hv" ..
    define xs where "xs = map listing (frontpage_rows 1700003600000 two_posts hv)"
    have fp: "getFrontpagePosts anonymous 1700003600000 two_posts = Inr xs"
      by (simp add: getFrontpagePosts_def hv xs_def)
    have in1: "live_3k2x \<in> set (Post_table two_posts)"
      and in2: "newer_3k2y \<in> set (Post_table two_posts)"
      and novotes: "PostVote_table two_posts = []"
      by (simp_all add: two_posts_def empty_database_def)
    have new: "status newer_3k2y = live" "post_id newer_3k2y = 2"
        "createdAt newer_3k2y = 1700001800000"
      by (simp_all add: newer_3k2y_def)
    from frontpage_lists_live [OF in1 old(1) fp] obtain y
      where y: "y \<in> set xs" "post_id y = 1" "createdAt y = 1700000000000" "voteCount y = 1"
      by (auto simp: old novotes)
    from frontpage_lists_live [OF in2 new(1) fp] obtain x
      where x: "x \<in> set xs" "post_id x = 2" "createdAt x = 1700001800000" "voteCount x = 1"
      by (auto simp: new novotes)
    have hyps: "date_readable (createdAt x)" "date_readable (createdAt y)"
        "0 \<le> hoursSince (createdAt x) 1700003600000"
        "0 \<le> hoursSince (createdAt y) 1700003600000"
      and lt: "hoursSince (createdAt x) 1700003600000 < hoursSince (createdAt y) 1700003600000"
      and eq: "voteCount x = voteCount y"
      by (simp_all add: x y hoursSince_def date_readable_def)
    note T = ranking_monotone [OF fp]
    from T have sorted: "sorted_wrt (\<lambda>x y. sql_le (listing_rank 1700003600000 y)
        (listing_rank 1700003600000 x)) xs"
      by blast
    from T x(1) y(1) clock hyps lt eq have "\<exists>s t. listing_rank 1700003600000 x = Some s
        \<and> listing_rank 1700003600000 y = Some t \<and> t < s"
      by blast
    with fp sorted x(1,2) y(1,2) lt eq show ?thesis by blast
  qed
  have second: "\<exists>xs. getFrontpagePosts anonymous 1700003600000 voted_posts = Inr xs
     \<and> (\<exists>x\<in>set xs. \<exists>y\<in>set xs. post_id x = 2 \<and> post_id y = 1
           \<and> voteCount x = 2 \<and> voteCount y = 1
           \<and> hoursSince (createdAt x) 1700003600000 = hoursSince (createdAt y) 1700003600000
           \<and> (\<exists>s t. listing_rank 1700003600000 x = Some s
                  \<and> listing_rank 1700003600000 y = Some t \<and> t < s))"
  proof -
    from hasVotedQuery_of_user [OF u] obtain hv
      where hv: "buildUserHasVotedQuery anonymous voted_posts = Inr hv" ..
    define xs where "xs = map listing (frontpage_rows 1700003600000 voted_posts hv)"
    have fp: "getFrontpagePosts anonymous 1700003600000 voted_posts = Inr xs"
      by (simp add: getFrontpagePosts_def hv xs_def)
    have in1: "live_3k2x \<in> set (Post_table voted_posts)"
      and in2: "same_age_3k2z \<in> set (Post_table voted_posts)"
      by (simp_all add: voted_posts_def empty_database_def)
    have same: "status same_age_3k2z = live" "post_id same_age_3k2z = 2"
        "createdAt same_age_3k2z = 1700000000000"
      by (simp_all add: same_age_3k2z_def)
    have c1: "max 1 (length (filter (\<lambda>v. vote_postId v = post_id live_3k2x)
          (PostVote_table voted_posts))) = 1"
      and c2: "max 1 (length (filter (\<lambda>v. vote_postId v = post_id same_age_3k2z)
          (PostVote_table voted_posts))) = 2"
      by (simp_all add: voted_posts_def empty_database_def old same)
    from frontpage_lists_live [OF in1 old(1) fp] obtain y
      where y0: "y \<in> set xs" "post_id y = post_id live_3k2x"
        "createdAt y = createdAt live_3k2x"
        "voteCount y = max 1 (length (filter (\<lambda>v. vote_postId v = post_id live_3k2x)
          (PostVote_table voted_posts)))"
      by blast
    from frontpage_lists_live [OF in2 same(1) fp] obtain x
      where x0: "x \<in> set xs" "post_id x = post_id same_age_3k2z"
        "createdAt x = createdAt same_age_3k2z"
        "voteCount x = max 1 (length (filter (\<lambda>v. vote_postId v = post_id same_age_3k2z)
          (PostVote_table voted_posts)))"
      by blast
    have y: "y \<in> set xs" "post_id y = 1" "createdAt y = 1700000000000" "voteCount y = 1"
      using y0 [unfolded c1] by (simp_all only: old)
    have x: "x \<in> set xs" "post_id x = 2" "createdAt x = 1700000000000" "voteCount x = 2"
      using x0 [unfolded c2] by (simp_all only: same)
    have hyps: "date_readable (createdAt x)" "date_readable (createdAt y)"
        "0 \<le> hoursSince (createdAt x) 1700003600000"
        "0 \<le> hoursSince (createdAt y) 1700003600000"
      and eq: "hoursSince (createdAt x) 1700003600000 = hoursSince (createdAt y) 1700003600000"
      and lt: "voteCount y < voteCount x"
      by (simp_all add: x y hoursSince_def date_readable_def)
    note T = ranking_monotone [OF fp]
    from T x(1) y(1) clock hyps lt eq have "\<exists>s t. listing_rank 1700003600000 x = Some s
        \<and> listing_rank 1700003600000 y = Some t \<and> t < s"
      by blast
    with fp x(1,2,4) y(1,2,4) eq show ?thesis by blast
  qed
  from first second show ?thesis by (rule conjI)
qed




end
